theory Spec2Isabelle
  imports Main "HOL-Library.Word"
begin

section \<open>Values\<close>

text \<open>
  A JavaScript string is a sequence of UTF-16 code units, each a 16-bit word.
  \<open>str\<close> turns an ASCII literal into its code units.
\<close>

type_synonym code_unit = "16 word"

type_synonym jsstring = "code_unit list"

definition str :: "string \<Rightarrow> jsstring" where
  "str s = map of_char s"

text \<open>
  A value produced by \<open>JSON.parse\<close>. A number keeps its decimal literal as mantissa and
  exponent: \<open>JNum m e\<close> stands for \<open>m * 10 ^ e\<close>; the rounding of the literal to a
  double, which changes a literal of more than 17 digits, is not modelled. The properties of an object are listed in
  the order in which \<open>Object.entries\<close> enumerates them. A field that may be \<open>undefined\<close> has
  type \<open>json option\<close>.
\<close>

datatype json =
    JNull
  | JBool bool
  | JNum int int
  | JStr jsstring
  | JArr "json list"
  | JObj "(jsstring \<times> json) list"

section \<open>Image Record Store\<close>

text \<open>The argument of \<open>saveGeneratedImage\<close> and the record it stores.\<close>

record imageInfo =
  info_id :: jsstring
  info_url :: jsstring
  info_prompt :: jsstring
  info_originalPrompt :: jsstring
  info_customTags :: jsstring
  info_filename :: "json option"
  info_subfolder :: "json option"
  info_type :: "json option"
  info_buttonId :: jsstring
  info_messageIndex :: int
  info_messageId :: jsstring
  info_buttonSelector :: jsstring

record imageData =
  img_id :: jsstring
  img_url :: jsstring
  img_prompt :: jsstring
  img_originalPrompt :: jsstring
  img_customTags :: jsstring
  img_timestamp :: int
  img_filename :: "json option"
  img_subfolder :: "json option"
  img_type :: "json option"
  img_buttonId :: jsstring
  img_messageIndex :: int
  img_messageId :: jsstring
  img_buttonSelector :: jsstring

text \<open>
  The settings object \<open>extension_settings[EXTENSION_NAME]\<close>. \<open>generated_images\<close> holds
  an array or is \<open>undefined\<close> (\<open>None\<close>), the case \<open>loadSettings\<close> repairs; other values
  of the field are not modelled. \<open>shares_default\<close> records that the field
  holds the very array object of \<open>DEFAULT_SETTINGS.generated_images\<close>, which happens after
  the shallow copy \<open>{ ...DEFAULT_SETTINGS }\<close>: an \<open>unshift\<close> then changes both.
\<close>

record ext_settings =
  enabled :: bool
  comfyui_url :: jsstring
  workflow_json :: jsstring
  prompt_placeholder :: jsstring
  custom_tags :: jsstring
  generated_images :: "imageData list option"
  shares_default :: bool

text \<open>
  What the program does besides changing the settings object: calls of the host's
  \<open>saveSettingsDebounced\<close> and \<open>toastr\<close>, and changes of the page. A toast is named by
  its message. The text handed to \<open>onError\<close> is \<open>CannotCreateWebSocket\<close>,
  \<open>WebSocketConnectionError\<close>, or \<open>GenerationError m\<close> for an execution error with the
  exception message \<open>m\<close> of the server (\<open>None\<close>: the default text). \<open>PostPrompt w c\<close>
  is the request to \<open>/prompt\<close> with the workflow \<open>w\<close> and the client id \<open>c\<close>.
\<close>

datatype chan_message =
    CannotCreateWebSocket
  | WebSocketConnectionError
  | GenerationError "json option"

datatype gen_failure =
    WorkflowEmpty
  | WorkflowFormat
  | WorkflowNotObject
  | StackExhausted
  | SerializationFailed
  | NoWebSocket
  | FetchFailed

datatype toast =
    RecordDeleted
  | RecordNotFound
  | NotConfigured
  | RequestSent
  | GenerationComplete
  | RetrievalFailed
  | CannotDisplayImage
  | GenerationFailed gen_failure
  | ChannelFailed chan_message

datatype effect =
    SaveSettingsDebounced
  | RenderImageHistory
  | ToastSuccess toast
  | ToastError toast
  | DisplayGeneratedImage jsstring jsstring
  | ButtonBusy jsstring
  | ButtonIdle jsstring
  | PostPrompt json jsstring

record ext_state =
  settings :: "ext_settings option"
  default_images :: "imageData list"
  effects :: "effect list"

datatype js_error = TypeError

definition DEFAULT_SETTINGS :: "imageData list \<Rightarrow> ext_settings" where
  "DEFAULT_SETTINGS d =
     \<lparr> enabled = True,
       comfyui_url = str ''http://127.0.0.1:8188'',
       workflow_json = [],
       prompt_placeholder = str ''%positive%'',
       custom_tags = [],
       generated_images = Some d,
       shares_default = True \<rparr>"

definition images_of :: "ext_settings \<Rightarrow> imageData list" where
  "images_of s = (case generated_images s of None \<Rightarrow> [] | Some xs \<Rightarrow> xs)"

text \<open>
  \<open>list()\<close>: the stored records, newest first. While the settings object is missing, the
  records are those of the default array, which \<open>saveGeneratedImage\<close> installs by its copy
  of \<open>DEFAULT_SETTINGS\<close> before it adds to it.
\<close>

definition list_images :: "ext_state \<Rightarrow> imageData list" where
  "list_images st = (case settings st of None \<Rightarrow> default_images st | Some s \<Rightarrow> images_of s)"

definition make_imageData :: "int \<Rightarrow> imageInfo \<Rightarrow> imageData" where
  "make_imageData now imageInfo =
     \<lparr> img_id = info_id imageInfo,
       img_url = info_url imageInfo,
       img_prompt = info_prompt imageInfo,
       img_originalPrompt =
         (if info_originalPrompt imageInfo \<noteq> [] then info_originalPrompt imageInfo
          else info_prompt imageInfo),
       img_customTags = info_customTags imageInfo,
       img_timestamp = now,
       img_filename = info_filename imageInfo,
       img_subfolder = info_subfolder imageInfo,
       img_type = info_type imageInfo,
       img_buttonId = info_buttonId imageInfo,
       img_messageIndex = info_messageIndex imageInfo,
       img_messageId = info_messageId imageInfo,
       img_buttonSelector = info_buttonSelector imageInfo \<rparr>"

text \<open>
  \<open>saveGeneratedImage\<close>; \<open>now\<close> is the value of \<open>Date.now()\<close>. The record is put in front
  and the array is cut to its first 100 entries when it is longer.
\<close>

definition saveGeneratedImage :: "int \<Rightarrow> imageInfo \<Rightarrow> ext_state \<Rightarrow> ext_state" where
  "saveGeneratedImage now imageInfo st =
     (let s0 = (case settings st of
                  None \<Rightarrow> DEFAULT_SETTINGS (default_images st)
                | Some s \<Rightarrow> s);
          s1 = (case generated_images s0 of
                  None \<Rightarrow> s0\<lparr>generated_images := Some [], shares_default := False\<rparr>
                | Some xs \<Rightarrow> s0);
          d = make_imageData now imageInfo;
          imgs = d # images_of s1;
          dflt = (if shares_default s1 then d # default_images st else default_images st);
          s2 = (if length imgs > 100
                then s1\<lparr>generated_images := Some (take 100 imgs), shares_default := False\<rparr>
                else s1\<lparr>generated_images := Some imgs\<rparr>)
      in st\<lparr> settings := Some s2,
              default_images := dflt,
              effects := effects st @ [SaveSettingsDebounced, RenderImageHistory] \<rparr>)"

text \<open>
  \<open>deleteImageEntry\<close>. It reads \<open>extension_settings[EXTENSION_NAME].generated_images\<close>
  without a guard, so a missing settings object is a \<open>TypeError\<close>. The function has no
  \<open>return\<close> statement: the value of a call is \<open>undefined\<close> (\<open>None\<close>), and the outcome
  is reported by a toast.
\<close>

definition deleteImageEntry :: "jsstring \<Rightarrow> ext_state \<Rightarrow> js_error + (json option \<times> ext_state)" where
  "deleteImageEntry imageIdToDelete st =
     (case settings st of
        None \<Rightarrow> Inl TypeError
      | Some s \<Rightarrow>
          (let imgs0 = images_of s;
               initialLength = length imgs0;
               imgs = filter (\<lambda>img. img_id img \<noteq> imageIdToDelete) imgs0;
               s' = s\<lparr>generated_images := Some imgs, shares_default := False\<rparr>
           in Inr (None,
                   st\<lparr> settings := Some s',
                        effects := effects st @
                          (if length imgs < initialLength
                           then [SaveSettingsDebounced, ToastSuccess RecordDeleted, RenderImageHistory]
                           else [ToastError RecordNotFound]) \<rparr>)))"

text \<open>A run of appends, oldest first, each with its clock value.\<close>

fun save_all :: "(int \<times> imageInfo) list \<Rightarrow> ext_state \<Rightarrow> ext_state" where
  "save_all [] st = st"
| "save_all ((now, imageInfo) # rest) st = save_all rest (saveGeneratedImage now imageInfo st)"

definition empty_store :: "ext_state" where
  "empty_store =
     \<lparr> settings = Some ((DEFAULT_SETTINGS [])\<lparr>shares_default := False\<rparr>),
       default_images = [],
       effects = [] \<rparr>"

section \<open>Restoration timing\<close>

text \<open>
  \<open>restoreStoredImages\<close> keeps, for each prompt key, the record with the greatest
  timestamp (a \<open>Map\<close>: a key keeps the position of its first insertion), and then starts
  one timer per record whose button was found, plus one timer for the summary. The lookup
  of the button in the page is the parameter \<open>findButton\<close>.
\<close>

definition promptKey :: "imageData \<Rightarrow> jsstring" where
  "promptKey d = (if img_originalPrompt d \<noteq> [] then img_originalPrompt d else img_prompt d)"

fun map_set :: "'k \<Rightarrow> 'v \<Rightarrow> ('k \<times> 'v) list \<Rightarrow> ('k \<times> 'v) list" where
  "map_set k v [] = [(k, v)]"
| "map_set k v ((k', v') # m) = (if k' = k then (k, v) # m else (k', v') # map_set k v m)"

definition group_step :: "(jsstring \<times> imageData) list \<Rightarrow> imageData \<Rightarrow> (jsstring \<times> imageData) list" where
  "group_step m d =
     (case map_of m (promptKey d) of
        None \<Rightarrow> map_set (promptKey d) d m
      | Some old \<Rightarrow> if img_timestamp d > img_timestamp old then map_set (promptKey d) d m else m)"

definition latestImagesByPrompt :: "imageData list \<Rightarrow> (jsstring \<times> imageData) list" where
  "latestImagesByPrompt storedImages = foldl group_step [] storedImages"

datatype timer_action = RestoreImage imageData | Summary

definition totalDelay :: "nat \<Rightarrow> nat" where
  "totalDelay n = n * 200 + 500"

definition restore_timers :: "(imageData \<Rightarrow> bool) \<Rightarrow> imageData list \<Rightarrow> (nat \<times> timer_action) list" where
  "restore_timers findButton imagesToRestore =
     map (\<lambda>(index, d). (index * 200, RestoreImage d))
       (filter (\<lambda>(index, d). findButton d) (enumerate 0 imagesToRestore))"

text \<open>
  The timers \<open>restoreStoredImages\<close> starts, as pairs of delay (ms) and action. With no
  stored record it shows a toast and starts none.
\<close>

definition restoreStoredImages :: "(imageData \<Rightarrow> bool) \<Rightarrow> ext_state \<Rightarrow> js_error + (nat \<times> timer_action) list" where
  "restoreStoredImages findButton st =
     (case settings st of
        None \<Rightarrow> Inl TypeError
      | Some s \<Rightarrow>
          (let storedImages = images_of s in
           if length storedImages = 0 then Inr []
           else
             (let imagesToRestore = map snd (latestImagesByPrompt storedImages) in
              if length imagesToRestore = 0 then Inr []
              else Inr (restore_timers findButton imagesToRestore
                        @ [(totalDelay (length imagesToRestore), Summary)]))))"

text \<open>The records selected for restoration, \<open>imagesToRestore\<close> in the source.\<close>

definition imagesToRestore_of :: "ext_state \<Rightarrow> imageData list" where
  "imagesToRestore_of st = map snd (latestImagesByPrompt (list_images st))"

text \<open>The delays of the restoration timers alone.\<close>

definition restore_delays :: "(imageData \<Rightarrow> bool) \<Rightarrow> imageData list \<Rightarrow> nat list" where
  "restore_delays findButton imagesToRestore = map fst (restore_timers findButton imagesToRestore)"

section \<open>JSON.parse\<close>

text \<open>
  \<open>JSON.parse\<close> is a built-in of the language; it is modelled after the JSON grammar of
  ECMAScript. The parser works on the code units left to read and reports a failure with
  the number of code units left at the offending place (\<open>0\<close> at the end of the input).
  The recursion is bounded by fuel; \<open>JSON_parse\<close> supplies \<open>2 * length s + 2\<close>, which
  \<open>parse_value_fuel\<close> below shows to be enough for every input.
\<close>

definition is_json_ws :: "code_unit \<Rightarrow> bool" where
  "is_json_ws c = (c = 9 \<or> c = 10 \<or> c = 13 \<or> c = 32)"

definition skip_ws :: "jsstring \<Rightarrow> jsstring" where
  "skip_ws s = dropWhile is_json_ws s"

definition is_digit :: "code_unit \<Rightarrow> bool" where
  "is_digit c = (48 \<le> c \<and> c \<le> 57)"

definition hex_val :: "code_unit \<Rightarrow> code_unit option" where
  "hex_val c =
     (if 48 \<le> c \<and> c \<le> 57 then Some (c - 48)
      else if 97 \<le> c \<and> c \<le> 102 then Some (c - 87)
      else if 65 \<le> c \<and> c \<le> 70 then Some (c - 55)
      else None)"

definition unescape :: "code_unit \<Rightarrow> code_unit option" where
  "unescape e =
     (if e = 34 \<or> e = 92 \<or> e = 47 then Some e
      else if e = 98 then Some 8
      else if e = 102 then Some 12
      else if e = 110 then Some 10
      else if e = 114 then Some 13
      else if e = 116 then Some 9
      else None)"

definition digits_val :: "jsstring \<Rightarrow> int" where
  "digits_val ds = foldl (\<lambda>a c. a * 10 + (uint c - 48)) 0 ds"

datatype 'a pres = Ok 'a jsstring | Err nat | Fuel

definition ok_cons :: "code_unit \<Rightarrow> jsstring pres \<Rightarrow> jsstring pres" where
  "ok_cons c r = (case r of Ok x rest \<Rightarrow> Ok (c # x) rest | Err n \<Rightarrow> Err n | Fuel \<Rightarrow> Fuel)"

text \<open>
  An escape \<open>\u\<close> needs four hexadecimal digits. When it has not, the offending place is
  the first of the up to four code units after it that is no such digit, or the end of
  the input: \<open>bad_hex_left\<close> is the number of code units left there.
\<close>

definition bad_hex_left :: "jsstring \<Rightarrow> nat" where
  "bad_hex_left s = length s - length (takeWhile (\<lambda>h. hex_val h \<noteq> None) (take 4 s))"

fun parse_string_chars :: "jsstring \<Rightarrow> jsstring pres" where
  "parse_string_chars [] = Err 0"
| "parse_string_chars (c # s) =
     (if c = 34 then Ok [] s
      else if c = 92 then
        (case s of
           [] \<Rightarrow> Err 0
         | e # s' \<Rightarrow>
             if e = 117 then
               (case s' of
                  h1 # h2 # h3 # h4 # s'' \<Rightarrow>
                    (case (hex_val h1, hex_val h2, hex_val h3, hex_val h4) of
                       (Some a, Some b, Some c', Some d) \<Rightarrow>
                         ok_cons (((a * 16 + b) * 16 + c') * 16 + d) (parse_string_chars s'')
                     | _ \<Rightarrow> Err (bad_hex_left s'))
                | _ \<Rightarrow> Err (bad_hex_left s'))
             else
               (case unescape e of
                  Some c' \<Rightarrow> ok_cons c' (parse_string_chars s')
                | None \<Rightarrow> Err (Suc (length s'))))
      else if c < 32 then Err (Suc (length s))
      else ok_cons c (parse_string_chars s))"

definition parse_number :: "jsstring \<Rightarrow> json pres" where
  "parse_number s =
     (let neg = (case s of c # r \<Rightarrow> c = 45 | [] \<Rightarrow> False);
          s1 = (if neg then tl s else s);
          ip = (case s1 of c # r \<Rightarrow> if c = 48 then [c] else takeWhile is_digit s1 | [] \<Rightarrow> []);
          s2 = drop (length ip) s1
      in if ip = [] then Err (length s1)
         else
           (let has_frac = (case s2 of c # r \<Rightarrow> c = 46 | [] \<Rightarrow> False);
                fp = (if has_frac then takeWhile is_digit (tl s2) else []);
                s3 = (if has_frac then dropWhile is_digit (tl s2) else s2)
            in if has_frac \<and> fp = [] then Err (length s3)
               else
                 (let has_exp = (case s3 of c # r \<Rightarrow> c = 101 \<or> c = 69 | [] \<Rightarrow> False);
                      s4 = (if has_exp then tl s3 else s3);
                      eneg = (case s4 of c # r \<Rightarrow> has_exp \<and> c = 45 | [] \<Rightarrow> False);
                      epos = (case s4 of c # r \<Rightarrow> has_exp \<and> c = 43 | [] \<Rightarrow> False);
                      s5 = (if eneg \<or> epos then tl s4 else s4);
                      ep = (if has_exp then takeWhile is_digit s5 else []);
                      s6 = (if has_exp then dropWhile is_digit s5 else s3);
                      m = digits_val (ip @ fp);
                      e = digits_val ep
                  in if has_exp \<and> ep = [] then Err (length s6)
                     else Ok (JNum (if neg then - m else m)
                                   ((if eneg then - e else e) - int (length fp))) s6)))"

text \<open>
  The own properties of an object are enumerated with the array indices first, in ascending
  order, and the other keys in the order of their creation; defining a key that exists
  keeps its place.
\<close>

definition array_index :: "jsstring \<Rightarrow> int option" where
  "array_index k =
     (if k \<noteq> [] \<and> list_all is_digit k \<and> (length k = 1 \<or> hd k \<noteq> 48)
         \<and> digits_val k < 4294967295
      then Some (digits_val k) else None)"

fun insert_index :: "int \<Rightarrow> jsstring \<Rightarrow> 'v \<Rightarrow> (jsstring \<times> 'v) list \<Rightarrow> (jsstring \<times> 'v) list" where
  "insert_index n k v [] = [(k, v)]"
| "insert_index n k v ((k', v') # es) =
     (case array_index k' of
        Some n' \<Rightarrow> if n' < n then (k', v') # insert_index n k v es else (k, v) # (k', v') # es
      | None \<Rightarrow> (k, v) # (k', v') # es)"

definition obj_define :: "jsstring \<Rightarrow> 'v \<Rightarrow> (jsstring \<times> 'v) list \<Rightarrow> (jsstring \<times> 'v) list" where
  "obj_define k v es =
     (if k \<in> set (map fst es) then map (\<lambda>(k', v'). if k' = k then (k', v) else (k', v')) es
      else case array_index k of
             Some n \<Rightarrow> insert_index n k v es
           | None \<Rightarrow> es @ [(k, v)])"

definition literal :: "jsstring \<Rightarrow> json pres" where
  "literal s =
     (if take 4 s = str ''true'' then Ok (JBool True) (drop 4 s)
      else if take 5 s = str ''false'' then Ok (JBool False) (drop 5 s)
      else if take 4 s = str ''null'' then Ok JNull (drop 4 s)
      else Err (length s))"

text \<open>
  \<open>parse_elems\<close> reads the elements of an array from the start of an element on,
  \<open>parse_members\<close> the members of an object from the start of a member on.
\<close>

fun parse_value :: "nat \<Rightarrow> jsstring \<Rightarrow> json pres"
and parse_elems :: "nat \<Rightarrow> json list \<Rightarrow> jsstring \<Rightarrow> json pres"
and parse_members :: "nat \<Rightarrow> (jsstring \<times> json) list \<Rightarrow> jsstring \<Rightarrow> json pres" where
  "parse_value 0 s = Fuel"
| "parse_value (Suc f) s =
     (case skip_ws s of
        [] \<Rightarrow> Err 0
      | c # r \<Rightarrow>
          if c = 123 then
            (case skip_ws r of
               [] \<Rightarrow> Err 0
             | c' # r' \<Rightarrow> if c' = 125 then Ok (JObj []) r' else parse_members f [] r)
          else if c = 91 then
            (case skip_ws r of
               [] \<Rightarrow> Err 0
             | c' # r' \<Rightarrow> if c' = 93 then Ok (JArr []) r' else parse_elems f [] r)
          else if c = 34 then
            (case parse_string_chars r of
               Ok x r' \<Rightarrow> Ok (JStr x) r'
             | Err n \<Rightarrow> Err n
             | Fuel \<Rightarrow> Fuel)
          else if c = 45 \<or> is_digit c then parse_number (c # r)
          else literal (c # r))"
| "parse_elems 0 acc s = Fuel"
| "parse_elems (Suc f) acc s =
     (case parse_value f s of
        Ok v r \<Rightarrow>
          (case skip_ws r of
             [] \<Rightarrow> Err 0
           | c # r' \<Rightarrow>
               if c = 44 then parse_elems f (acc @ [v]) r'
               else if c = 93 then Ok (JArr (acc @ [v])) r'
               else Err (Suc (length r')))
      | Err n \<Rightarrow> Err n
      | Fuel \<Rightarrow> Fuel)"
| "parse_members 0 acc s = Fuel"
| "parse_members (Suc f) acc s =
     (case skip_ws s of
        [] \<Rightarrow> Err 0
      | c # r \<Rightarrow>
          if c \<noteq> 34 then Err (Suc (length r))
          else
            (case parse_string_chars r of
               Ok k r1 \<Rightarrow>
                 (case skip_ws r1 of
                    [] \<Rightarrow> Err 0
                  | c1 # r2 \<Rightarrow>
                      if c1 \<noteq> 58 then Err (Suc (length r2))
                      else
                        (case parse_value f r2 of
                           Ok v r3 \<Rightarrow>
                             (case skip_ws r3 of
                                [] \<Rightarrow> Err 0
                              | c3 # r4 \<Rightarrow>
                                  if c3 = 44 then parse_members f (obj_define k v acc) r4
                                  else if c3 = 125 then Ok (JObj (obj_define k v acc)) r4
                                  else Err (Suc (length r4)))
                         | Err n \<Rightarrow> Err n
                         | Fuel \<Rightarrow> Fuel))
             | Err n \<Rightarrow> Err n
             | Fuel \<Rightarrow> Fuel))"

text \<open>The exception of \<open>JSON.parse\<close>, with the offset of the offending code unit.\<close>

datatype syntax_error = SyntaxError nat

definition JSON_parse :: "jsstring \<Rightarrow> syntax_error + json" where
  "JSON_parse s =
     (case parse_value (2 * length s + 2) s of
        Ok v r \<Rightarrow>
          (case skip_ws r of
             [] \<Rightarrow> Inr v
           | c # r' \<Rightarrow> Inl (SyntaxError (length s - Suc (length r'))))
      | Err n \<Rightarrow> Inl (SyntaxError (length s - n))
      | Fuel \<Rightarrow> Inl (SyntaxError (length s)))"

section \<open>Text replacement\<close>

text \<open>
  \<open>String.prototype.replace\<close> with a global regular expression and a replacement string.
  A pattern is given by its matcher: the length of the match that starts at the head of the
  text, if there is one. In the replacement string \<open>$$\<close> stands for a dollar sign,
  \<open>$&\<close> for the matched text, \<open>$`\<close> for the text before the match and \<open>$'\<close> for
  the text after it; the patterns used here have no groups, so every other \<open>$\<close> stands
  for itself.
\<close>

type_synonym matcher = "jsstring \<Rightarrow> nat option"

fun get_substitution :: "jsstring \<Rightarrow> jsstring \<Rightarrow> jsstring \<Rightarrow> jsstring \<Rightarrow> jsstring" where
  "get_substitution matched preceding following [] = []"
| "get_substitution matched preceding following [c] = [c]"
| "get_substitution matched preceding following (c # d # t) =
     (if c = 36 then
        (if d = 36 then 36 # get_substitution matched preceding following t
         else if d = 38 then matched @ get_substitution matched preceding following t
         else if d = 96 then preceding @ get_substitution matched preceding following t
         else if d = 39 then following @ get_substitution matched preceding following t
         else 36 # get_substitution matched preceding following (d # t))
      else c # get_substitution matched preceding following (d # t))"

text \<open>
  \<open>replace_from m t pre s\<close> replaces the matches in \<open>s\<close>, the text before \<open>s\<close> being
  \<open>pre\<close>. After an empty match the search moves on by one code unit.
\<close>

function replace_from :: "matcher \<Rightarrow> jsstring \<Rightarrow> jsstring \<Rightarrow> jsstring \<Rightarrow> jsstring" where
  "replace_from m t pre [] =
     (case m [] of None \<Rightarrow> [] | Some n \<Rightarrow> get_substitution [] pre [] t)"
| "replace_from m t pre (c # s) =
     (case m (c # s) of
        None \<Rightarrow> c # replace_from m t (pre @ [c]) s
      | Some 0 \<Rightarrow> get_substitution [] pre (c # s) t @ c # replace_from m t (pre @ [c]) s
      | Some (Suc n) \<Rightarrow>
          get_substitution (c # take n s) pre (drop n s) t
            @ replace_from m t (pre @ c # take n s) (drop n s))"
  by pat_completeness auto
termination
  by (relation "measure (\<lambda>(m, t, pre, s). length s)") auto

definition replace_global :: "matcher \<Rightarrow> jsstring \<Rightarrow> jsstring \<Rightarrow> jsstring" where
  "replace_global m t s = replace_from m t [] s"

text \<open>A pattern that is a literal text, such as \<open>/%seed%/g\<close>.\<close>

definition match_literal :: "jsstring \<Rightarrow> matcher" where
  "match_literal tok s = (if take (length tok) s = tok then Some (length tok) else None)"

text \<open>
  White space as \<open>trim\<close> and the class \<open>\s\<close> have it: the white space and line
  terminator code points, the byte order mark U+FEFF among them.
\<close>

definition is_js_space :: "code_unit \<Rightarrow> bool" where
  "is_js_space c =
     (c = 9 \<or> c = 10 \<or> c = 11 \<or> c = 12 \<or> c = 13 \<or> c = 32 \<or> c = 160 \<or> c = 5760
      \<or> (8192 \<le> c \<and> c \<le> 8202) \<or> c = 8232 \<or> c = 8233 \<or> c = 8239 \<or> c = 8287
      \<or> c = 12288 \<or> c = 65279)"

definition js_trim :: "jsstring \<Rightarrow> jsstring" where
  "js_trim s = rev (dropWhile is_js_space (rev (dropWhile is_js_space s)))"

text \<open>The test \<open>charCodeAt(0) === 0xFEFF\<close> and the \<open>slice(1)\<close> that follows it.\<close>

definition strip_bom :: "jsstring \<Rightarrow> jsstring" where
  "strip_bom t = (case t of [] \<Rightarrow> t | c # r \<Rightarrow> if c = 65279 then r else t)"

text \<open>
  A pattern of the shape \<open>open body+ close\<close>, where \<open>body\<close> is a class of code units
  that holds no code unit of \<open>close\<close>: the greedy body takes the longest run, and giving
  code units back cannot help, as \<open>close\<close> would have to start inside the run.
\<close>

definition match_delimited :: "jsstring \<Rightarrow> (code_unit \<Rightarrow> bool) \<Rightarrow> jsstring \<Rightarrow> matcher" where
  "match_delimited opening body closing s =
     (if take (length opening) s = opening then
        (let r = drop (length opening) s;
             b = takeWhile body r;
             r' = dropWhile body r
         in if b \<noteq> [] \<and> take (length closing) r' = closing
            then Some (length opening + length b + length closing)
            else None)
      else None)"

section \<open>Workflow Template Engine: validation\<close>

text \<open>The twelve pairs of \<open>placeholderReplacements\<close>, in the order of the source.\<close>

definition placeholderReplacements :: "(matcher \<times> jsstring) list" where
  \<open>placeholderReplacements =
     [ (match_literal (str ''%positive%''), str ''"temp_positive_placeholder"''),
       (match_literal (str ''%negative%''), str ''"temp_negative_placeholder"''),
       (match_literal (str ''%seed%''), str ''12345''),
       (match_literal (str ''%width%''), str ''512''),
       (match_literal (str ''%height%''), str ''512''),
       (match_literal (str ''%steps%''), str ''20''),
       (match_literal (str ''%cfg%''), str ''7.0''),
       (match_literal (str ''%sampler%''), str ''"euler"''),
       (match_literal (str ''%scheduler%''), str ''"normal"''),
       (match_delimited (str ''{{'') (\<lambda>c. c \<noteq> 125) (str ''}}''), str ''"temp_placeholder"''),
       (match_delimited (str ''['') (\<lambda>c. c \<noteq> 93) (str '']''), str ''"temp_placeholder"''),
       (match_delimited (str ''%'')
          (\<lambda>c. c \<noteq> 37 \<and> \<not> is_js_space c \<and> c \<noteq> 44 \<and> c \<noteq> 125 \<and> c \<noteq> 93) (str ''%''),
        str ''"temp_placeholder"'') ]\<close>

definition substitute_placeholders :: "jsstring \<Rightarrow> jsstring" where
  "substitute_placeholders cleanJson =
     foldl (\<lambda>tempJson (regex, replacement). replace_global regex replacement tempJson)
       cleanJson placeholderReplacements"

text \<open>
  The result of \<open>validateWorkflowJson\<close>. The error text is kept as its parts: the excerpt
  of the source around the failure, when there is one.
\<close>

datatype validation_error = EmptyWorkflow | JsonFormatError "jsstring option"

datatype validation = Valid json | Invalid validation_error

definition errorContext :: "nat option \<Rightarrow> jsstring \<Rightarrow> jsstring option" where
  "errorContext position cleanJson =
     (case position of
        None \<Rightarrow> None
      | Some p \<Rightarrow>
          if p \<noteq> 0 \<and> cleanJson \<noteq> [] then
            (let start = p - 50;
                 end' = min (length cleanJson) (p + 50)
             in Some (take (end' - start) (drop start cleanJson)))
          else None)"

text \<open>
  \<open>validateWorkflowJson\<close>. Whether the message of the exception names a position depends on
  the engine: \<open>position_in_message\<close> gives the number the message shows for a failure at
  an offset, if it shows one.
\<close>

definition validateWorkflowJson :: "(nat \<Rightarrow> nat option) \<Rightarrow> jsstring \<Rightarrow> validation" where
  "validateWorkflowJson position_in_message jsonString =
     (if jsonString = [] \<or> js_trim jsonString = [] then Invalid EmptyWorkflow
      else
        (let cleanJson = strip_bom (js_trim jsonString);
             tempJson = substitute_placeholders cleanJson
         in case JSON_parse tempJson of
              Inr parsed \<Rightarrow> Valid parsed
            | Inl (SyntaxError p) \<Rightarrow>
                Invalid (JsonFormatError (errorContext (position_in_message p) cleanJson))))"

section \<open>Job Channel\<close>

text \<open>
  Reading a property. Reading from \<open>undefined\<close> or \<open>null\<close> throws. The properties
  inherited from the built-in prototypes are not modelled: the keys this program reads
  (\<open>type\<close>, \<open>data\<close>, \<open>output\<close>, \<open>images\<close>, \<open>exception_message\<close>, \<open>length\<close>,
  \<open>0\<close>, \<open>filename\<close>, \<open>subfolder\<close>) are not among them.
\<close>

definition get_prop :: "json option \<Rightarrow> jsstring \<Rightarrow> js_error + json option" where
  "get_prop base key =
     (case base of
        None \<Rightarrow> Inl TypeError
      | Some JNull \<Rightarrow> Inl TypeError
      | Some (JObj es) \<Rightarrow> Inr (map_of es key)
      | Some (JArr xs) \<Rightarrow>
          Inr (if key = str ''length'' then Some (JNum (int (length xs)) 0)
               else case array_index key of
                      Some i \<Rightarrow> if i < int (length xs) then Some (xs ! nat i) else None
                    | None \<Rightarrow> None)
      | Some (JStr s) \<Rightarrow>
          Inr (if key = str ''length'' then Some (JNum (int (length s)) 0)
               else case array_index key of
                      Some i \<Rightarrow> if i < int (length s) then Some (JStr [s ! nat i]) else None
                    | None \<Rightarrow> None)
      | Some _ \<Rightarrow> Inr None)"

text \<open>
  Truthiness. A number literal is falsy when its double is zero: the mantissa is zero, or
  the value is at most \<open>2 ^ -1075\<close> in magnitude and rounds to zero.
\<close>

definition js_truthy :: "json \<Rightarrow> bool" where
  "js_truthy v =
     (case v of
        JNull \<Rightarrow> False
      | JBool b \<Rightarrow> b
      | JNum m e \<Rightarrow> \<not> (m = 0 \<or> (e < 0 \<and> \<bar>m\<bar> * 2 ^ 1075 \<le> 10 ^ nat (- e)))
      | JStr s \<Rightarrow> s \<noteq> []
      | JArr xs \<Rightarrow> True
      | JObj es \<Rightarrow> True)"

definition truthy :: "json option \<Rightarrow> bool" where
  "truthy v = (case v of None \<Rightarrow> False | Some x \<Rightarrow> js_truthy x)"

datatype callback = OnImageGenerated json | OnError chan_message

text \<open>
  The body of \<open>ws.onmessage\<close>: the callbacks it invokes for the text \<open>event.data\<close>. Every
  exception inside is caught and logged, and nothing is invoked then.
\<close>

definition onmessage :: "jsstring \<Rightarrow> callback list" where
  "onmessage event_data =
     (case JSON_parse event_data of
        Inl e \<Rightarrow> []
      | Inr data \<Rightarrow>
          (case get_prop (Some data) (str ''type'') of
             Inl e \<Rightarrow> []
           | Inr ty \<Rightarrow>
               if ty = Some (JStr (str ''crystools.monitor''))
                  \<or> ty = Some (JStr (str ''status''))
                  \<or> ty = Some (JStr (str ''progress''))
               then []
               else if ty = Some (JStr (str ''executed'')) then
                 (case get_prop (Some data) (str ''data'') of
                    Inl e \<Rightarrow> []
                  | Inr d \<Rightarrow>
                      (case get_prop d (str ''output'') of
                         Inl e \<Rightarrow> []
                       | Inr output \<Rightarrow>
                           if \<not> truthy output then []
                           else
                             (case get_prop output (str ''images'') of
                                Inl e \<Rightarrow> []
                              | Inr None \<Rightarrow> []
                              | Inr (Some images) \<Rightarrow>
                                  if js_truthy images then [OnImageGenerated images] else [])))
               else if ty = Some (JStr (str ''execution_error'')) then
                 (case get_prop (Some data) (str ''data'') of
                    Inl e \<Rightarrow> []
                  | Inr d \<Rightarrow>
                      (case get_prop d (str ''exception_message'') of
                         Inl e \<Rightarrow> []
                       | Inr m \<Rightarrow> [OnError (GenerationError (if truthy m then m else None))]))
               else []))"

text \<open>
  What the two callbacks of a job close over: the arguments of \<open>generateImage\<close>, the prompt
  with the custom tags, the client id and the place of the button.
  \<open>job_buttonUniqueId\<close> is what \<open>displayGeneratedImage\<close> reads from the button, its
  \<open>id\<close> attribute or else its \<open>data-id\<close>, empty when it has neither.
\<close>

record job =
  job_prompt :: jsstring
  job_buttonId :: jsstring
  job_finalPrompt :: jsstring
  job_clientId :: jsstring
  job_messageIndex :: int
  job_messageId :: jsstring
  job_buttonSelector :: jsstring
  job_buttonUniqueId :: jsstring

text \<open>
  Built-ins that are left open: \<open>encodeURIComponent\<close> of a value (\<open>None\<close>: it throws
  \<open>URIError\<close>), the text of a value in a template literal, and the comparison \<open>x > 0\<close>.
\<close>

record builtins =
  encodeURIComponent :: "json option \<Rightarrow> jsstring option"
  to_text :: "json option \<Rightarrow> jsstring"
  gt_zero :: "json option \<Rightarrow> bool"

text \<open>\<open>getGeneratedImage\<close>; \<open>None\<close> is a rejected promise.\<close>

definition getGeneratedImage :: "builtins \<Rightarrow> ext_settings option \<Rightarrow> json option \<Rightarrow> json option \<Rightarrow> json option \<Rightarrow> jsstring option" where
  "getGeneratedImage b s filename subfolder0 type0 =
     (let subfolder = (case subfolder0 of None \<Rightarrow> Some (JStr []) | Some x \<Rightarrow> Some x);
          type = (case type0 of None \<Rightarrow> Some (JStr (str ''output'')) | Some x \<Rightarrow> Some x)
      in case s of
           None \<Rightarrow> None
         | Some cfg \<Rightarrow>
             if truthy subfolder then
               (case (encodeURIComponent b filename, encodeURIComponent b subfolder) of
                  (Some f, Some sf) \<Rightarrow>
                    Some (comfyui_url cfg @ str ''/view?filename='' @ f
                          @ str ''&subfolder='' @ sf @ str ''&type='' @ to_text b type)
                | _ \<Rightarrow> None)
             else
               (case encodeURIComponent b filename of
                  Some f \<Rightarrow>
                    Some (comfyui_url cfg @ str ''/view?filename='' @ f
                          @ str ''&type='' @ to_text b type)
                | None \<Rightarrow> None))"

text \<open>
  The \<open>onImageGenerated\<close> callback that \<open>generateImage\<close> hands to the channel; \<open>now\<close> is
  the clock at the time of saving. Every failure inside ends in the error toast, and the
  button is made idle in each case.
\<close>

definition retrieval_failed :: "job \<Rightarrow> ext_state \<Rightarrow> ext_state" where
  "retrieval_failed j st =
     st\<lparr>effects := effects st @ [ToastError RetrievalFailed, ButtonIdle (job_buttonId j)]\<rparr>"

text \<open>The object that the callback hands to \<open>saveGeneratedImage\<close>.\<close>

definition job_imageInfo :: "job \<Rightarrow> ext_settings option \<Rightarrow> jsstring \<Rightarrow> json option \<Rightarrow> json option \<Rightarrow> json option \<Rightarrow> imageInfo" where
  "job_imageInfo j s imageUrl filename subfolder type =
     \<lparr> info_id = job_buttonId j,
       info_url = imageUrl,
       info_prompt = job_finalPrompt j,
       info_originalPrompt = job_prompt j,
       info_customTags = (case s of None \<Rightarrow> [] | Some cfg \<Rightarrow> custom_tags cfg),
       info_filename = filename,
       info_subfolder = subfolder,
       info_type = type,
       info_buttonId = job_buttonId j,
       info_messageIndex = job_messageIndex j,
       info_messageId = job_messageId j,
       info_buttonSelector = job_buttonSelector j \<rparr>"

text \<open>
  The record is saved, \<open>displayGeneratedImage\<close> shows the image at the button, or an
  error toast for a button without \<open>id\<close> and \<open>data-id\<close>, and the success toast follows.
\<close>

definition image_saved :: "int \<Rightarrow> job \<Rightarrow> imageInfo \<Rightarrow> ext_state \<Rightarrow> ext_state" where
  "image_saved now j i st =
     (let st' = saveGeneratedImage now i st
      in st'\<lparr>effects := effects st' @
           (if job_buttonUniqueId j \<noteq> []
            then [DisplayGeneratedImage (job_buttonUniqueId j) (info_url i)]
            else [ToastError CannotDisplayImage])
           @ [ToastSuccess GenerationComplete, ButtonIdle (job_buttonId j)]\<rparr>)"

definition onImageGenerated :: "builtins \<Rightarrow> int \<Rightarrow> job \<Rightarrow> json \<Rightarrow> ext_state \<Rightarrow> ext_state" where
  "onImageGenerated b now j images st =
     (if js_truthy images \<and> (case get_prop (Some images) (str ''length'') of
                                 Inl e \<Rightarrow> False | Inr n \<Rightarrow> gt_zero b n)
      then
        (case get_prop (Some images) (str ''0'') of
           Inl e \<Rightarrow> retrieval_failed j st
         | Inr imageInfo \<Rightarrow>
             (case (get_prop imageInfo (str ''filename''), get_prop imageInfo (str ''subfolder''),
                    get_prop imageInfo (str ''type'')) of
                (Inr filename, Inr subfolder, Inr type) \<Rightarrow>
                  (case getGeneratedImage b (settings st) filename subfolder type of
                     None \<Rightarrow> retrieval_failed j st
                   | Some imageUrl \<Rightarrow>
                       if imageUrl \<noteq> []
                       then image_saved now j
                              (job_imageInfo j (settings st) imageUrl filename subfolder type) st
                       else retrieval_failed j st)
              | _ \<Rightarrow> retrieval_failed j st))
      else retrieval_failed j st)"

text \<open>The \<open>onError\<close> callback of \<open>generateImage\<close>.\<close>

definition onError :: "job \<Rightarrow> chan_message \<Rightarrow> ext_state \<Rightarrow> ext_state" where
  "onError j error st =
     st\<lparr>effects := effects st @ [ButtonIdle (job_buttonId j), ToastError (ChannelFailed error)]\<rparr>"

text \<open>
  The state of the program: the store, the registry \<open>wsConnections\<close> from client id to
  socket, the callbacks attached to the socket of each client id (given by their job), and
  the callbacks invoked so far, with the client id of their channel.
\<close>

record app_state =
  store :: ext_state
  wsConnections :: "jsstring \<rightharpoonup> nat"
  handlers :: "jsstring \<rightharpoonup> job"
  calls :: "(jsstring \<times> callback) list"

definition invoke :: "builtins \<Rightarrow> int \<Rightarrow> jsstring \<Rightarrow> app_state \<Rightarrow> callback \<Rightarrow> app_state" where
  "invoke b now clientId st cb =
     (let st1 = st\<lparr>calls := calls st @ [(clientId, cb)]\<rparr>
      in case handlers st clientId of
           None \<Rightarrow> st1
         | Some j \<Rightarrow>
             (case cb of
                OnImageGenerated images \<Rightarrow> st1\<lparr>store := onImageGenerated b now j images (store st)\<rparr>
              | OnError error \<Rightarrow> st1\<lparr>store := onError j error (store st)\<rparr>))"

datatype ws_event = OpenEvent | MessageEvent jsstring | ErrorEvent | CloseEvent

text \<open>The four handlers that \<open>connectWebSocket\<close> attaches to the socket of \<open>clientId\<close>.\<close>

definition ws_dispatch :: "builtins \<Rightarrow> int \<Rightarrow> jsstring \<Rightarrow> ws_event \<Rightarrow> app_state \<Rightarrow> app_state" where
  "ws_dispatch b now clientId ev st =
     (case ev of
        OpenEvent \<Rightarrow> st
      | MessageEvent event_data \<Rightarrow> foldl (invoke b now clientId) st (onmessage event_data)
      | ErrorEvent \<Rightarrow> invoke b now clientId st (OnError WebSocketConnectionError)
      | CloseEvent \<Rightarrow> st\<lparr>wsConnections := (wsConnections st)(clientId := None)\<rparr>)"

text \<open>\<open>String.prototype.replace\<close> with a text as pattern: the first occurrence only.\<close>

fun replace_first_from :: "jsstring \<Rightarrow> jsstring \<Rightarrow> jsstring \<Rightarrow> jsstring \<Rightarrow> jsstring" where
  "replace_first_from pat t pre [] =
     (if pat = [] then get_substitution [] pre [] t else [])"
| "replace_first_from pat t pre (c # s) =
     (if take (length pat) (c # s) = pat
      then get_substitution pat pre (drop (length pat) (c # s)) t @ drop (length pat) (c # s)
      else c # replace_first_from pat t (pre @ [c]) s)"

definition replace_first :: "jsstring \<Rightarrow> jsstring \<Rightarrow> jsstring \<Rightarrow> jsstring" where
  "replace_first pat t s = replace_first_from pat t [] s"

definition wsUrl :: "ext_settings \<Rightarrow> jsstring \<Rightarrow> jsstring" where
  "wsUrl s clientId =
     replace_first (str ''https://'') (str ''wss://'')
       (replace_first (str ''http://'') (str ''ws://'') (comfyui_url s))
     @ str ''/ws?clientId='' @ clientId"

text \<open>
  \<open>connectWebSocket\<close>. \<open>new_WebSocket\<close> is the constructor: the socket for a URL, or
  \<open>None\<close> when it throws. The two callbacks are given by the job. The result is the socket
  or \<open>null\<close>; the settings are read before the \<open>try\<close>, so missing settings are a
  \<open>TypeError\<close> of the call.
\<close>

definition connectWebSocket :: "(jsstring \<Rightarrow> nat option) \<Rightarrow> jsstring \<Rightarrow> job \<Rightarrow> app_state \<Rightarrow> js_error + (nat option \<times> app_state)" where
  "connectWebSocket new_WebSocket clientId j st =
     (case settings (store st) of
        None \<Rightarrow> Inl TypeError
      | Some s \<Rightarrow>
          (case new_WebSocket (wsUrl s clientId) of
             Some ws \<Rightarrow>
               Inr (Some ws, st\<lparr> wsConnections := (wsConnections st)(clientId \<mapsto> ws),
                                  handlers := (handlers st)(clientId \<mapsto> j) \<rparr>)
           | None \<Rightarrow>
               Inr (None, st\<lparr> calls := calls st @ [(clientId, OnError CannotCreateWebSocket)],
                               store := onError j CannotCreateWebSocket (store st) \<rparr>)))"

section \<open>Workflow Template Engine: fill\<close>

text \<open>
  The workflow that \<open>replaceInObject\<close> walks is made of objects and arrays of the heap. A
  value is a primitive or a reference to a cell; a cell holds the items of an array or the
  own properties of an object, in enumeration order. Addresses are positions in the heap,
  and a new cell is put at the end.
\<close>

datatype hval = HNull | HBool bool | HNum int int | HStr jsstring | HRef nat

datatype cell = ArrayCell "hval list" | ObjectCell "(jsstring \<times> hval) list"

type_synonym heap = "cell list"

definition cell_at :: "heap \<Rightarrow> nat \<Rightarrow> cell option" where
  "cell_at h a = (if a < length h then Some (h ! a) else None)"

text \<open>
  The assignment \<open>newObj[key] = value\<close> on an object made by \<open>{}\<close>. The key
  \<open>__proto__\<close> is the accessor of \<open>Object.prototype\<close>: assigning to it makes no own
  property (it sets the prototype of the new object, which this program never reads).
\<close>

definition obj_set :: "jsstring \<Rightarrow> 'v \<Rightarrow> (jsstring \<times> 'v) list \<Rightarrow> (jsstring \<times> 'v) list" where
  "obj_set k v es = (if k = str ''__proto__'' then es else obj_define k v es)"

definition set_property :: "nat \<Rightarrow> jsstring \<Rightarrow> hval \<Rightarrow> heap \<Rightarrow> heap" where
  "set_property a k v h =
     (case cell_at h a of
        Some (ObjectCell es) \<Rightarrow> h[a := ObjectCell (obj_set k v es)]
      | _ \<Rightarrow> h)"

text \<open>
  \<open>replaceInObject\<close>, nested in \<open>generateImage\<close>. The pattern is the placeholder with
  every special character of regular expressions escaped, so it matches the placeholder as
  a text. The first argument bounds the depth of the calls: with none left the engine
  throws \<open>RangeError\<close>, which is the result \<open>None\<close>. \<open>replace_items\<close> is the loop of
  \<open>obj.map\<close>, whose new array is put in the heap when it returns; \<open>replace_entries\<close> is
  the loop over \<open>Object.entries(obj)\<close>, which assigns to the object \<open>newObj\<close>.
\<close>

function (sequential) replaceInObject :: "nat \<Rightarrow> jsstring \<Rightarrow> jsstring \<Rightarrow> hval \<Rightarrow> heap \<Rightarrow> hval option \<times> heap"
and replace_items :: "nat \<Rightarrow> jsstring \<Rightarrow> jsstring \<Rightarrow> hval list \<Rightarrow> heap \<Rightarrow> hval list option \<times> heap"
and replace_entries :: "nat \<Rightarrow> jsstring \<Rightarrow> jsstring \<Rightarrow> nat \<Rightarrow> (jsstring \<times> hval) list \<Rightarrow> heap \<Rightarrow> bool \<times> heap" where
  "replaceInObject 0 placeholderToReplace replacementValue obj h = (None, h)"
| "replaceInObject (Suc f) placeholderToReplace replacementValue obj h =
     (case obj of
        HStr s \<Rightarrow>
          (Some (HStr (replace_global (match_literal placeholderToReplace) replacementValue s)), h)
      | HRef a \<Rightarrow>
          (case cell_at h a of
             Some (ArrayCell items) \<Rightarrow>
               (case replace_items f placeholderToReplace replacementValue items h of
                  (Some items', h') \<Rightarrow> (Some (HRef (length h')), h' @ [ArrayCell items'])
                | (None, h') \<Rightarrow> (None, h'))
           | Some (ObjectCell es) \<Rightarrow>
               (case replace_entries f placeholderToReplace replacementValue (length h) es
                       (h @ [ObjectCell []]) of
                  (True, h') \<Rightarrow> (Some (HRef (length h)), h')
                | (False, h') \<Rightarrow> (None, h'))
           | None \<Rightarrow> (Some obj, h))
      | _ \<Rightarrow> (Some obj, h))"
| "replace_items f placeholderToReplace replacementValue [] h = (Some [], h)"
| "replace_items f placeholderToReplace replacementValue (item # items) h =
     (case replaceInObject f placeholderToReplace replacementValue item h of
        (Some item', h') \<Rightarrow>
          (case replace_items f placeholderToReplace replacementValue items h' of
             (Some items', h'') \<Rightarrow> (Some (item' # items'), h'')
           | (None, h'') \<Rightarrow> (None, h''))
      | (None, h') \<Rightarrow> (None, h'))"
| "replace_entries f placeholderToReplace replacementValue newObj [] h = (True, h)"
| "replace_entries f placeholderToReplace replacementValue newObj ((key, v) # es) h =
     (case replaceInObject f placeholderToReplace replacementValue v h of
        (Some v', h') \<Rightarrow>
          replace_entries f placeholderToReplace replacementValue newObj es
            (set_property newObj key v' h')
      | (None, h') \<Rightarrow> (False, h'))"
  by pat_completeness auto
termination
  by (relation "inv_image (less_than <*lex*> less_than)
        (\<lambda>x. case x of
           Inl (f, p, r, obj, h) \<Rightarrow> (f, 0)
         | Inr (Inl (f, p, r, items, h)) \<Rightarrow> (f, Suc (length items))
         | Inr (Inr (f, p, r, newObj, es, h)) \<Rightarrow> (f, Suc (length es)))") auto

text \<open>
  The document a value stands for, read from the heap to a given depth. Only cells from
  address \<open>n\<close> on are looked at; \<open>read_json\<close> looks at all of them. \<open>None\<close>: the depth
  does not suffice, or a reference leads outside.
\<close>

function (sequential) read_from :: "nat \<Rightarrow> nat \<Rightarrow> heap \<Rightarrow> hval \<Rightarrow> json option"
and read_items :: "nat \<Rightarrow> nat \<Rightarrow> heap \<Rightarrow> hval list \<Rightarrow> json list option"
and read_entries :: "nat \<Rightarrow> nat \<Rightarrow> heap \<Rightarrow> (jsstring \<times> hval) list \<Rightarrow> (jsstring \<times> json) list option" where
  "read_from n 0 h v = None"
| "read_from n (Suc d) h v =
     (case v of
        HNull \<Rightarrow> Some JNull
      | HBool b \<Rightarrow> Some (JBool b)
      | HNum m e \<Rightarrow> Some (JNum m e)
      | HStr s \<Rightarrow> Some (JStr s)
      | HRef a \<Rightarrow>
          if a < n then None
          else
            (case cell_at h a of
               None \<Rightarrow> None
             | Some (ArrayCell items) \<Rightarrow>
                 (case read_items n d h items of None \<Rightarrow> None | Some ts \<Rightarrow> Some (JArr ts))
             | Some (ObjectCell es) \<Rightarrow>
                 (case read_entries n d h es of None \<Rightarrow> None | Some ts \<Rightarrow> Some (JObj ts))))"
| "read_items n d h [] = Some []"
| "read_items n d h (v # vs) =
     (case read_from n d h v of
        None \<Rightarrow> None
      | Some t \<Rightarrow> (case read_items n d h vs of None \<Rightarrow> None | Some ts \<Rightarrow> Some (t # ts)))"
| "read_entries n d h [] = Some []"
| "read_entries n d h ((k, v) # es) =
     (case read_from n d h v of
        None \<Rightarrow> None
      | Some t \<Rightarrow> (case read_entries n d h es of None \<Rightarrow> None | Some ts \<Rightarrow> Some ((k, t) # ts)))"
  by pat_completeness auto
termination
  by (relation "inv_image (less_than <*lex*> less_than)
        (\<lambda>x. case x of
           Inl (n, d, h, v) \<Rightarrow> (d, 0)
         | Inr (Inl (n, d, h, vs)) \<Rightarrow> (d, Suc (length vs))
         | Inr (Inr (n, d, h, es)) \<Rightarrow> (d, Suc (length es)))") auto

definition read_json :: "nat \<Rightarrow> heap \<Rightarrow> hval \<Rightarrow> json option" where
  "read_json d h v = read_from 0 d h v"

text \<open>A property in the heap and the property of a document it stands for.\<close>

definition reads :: "nat \<Rightarrow> nat \<Rightarrow> heap \<Rightarrow> jsstring \<times> hval \<Rightarrow> jsstring \<times> json \<Rightarrow> bool" where
  "reads n d h x y = (fst x = fst y \<and> read_from n d h (snd x) = Some (snd y))"

text \<open>The value and the cells that \<open>JSON.parse\<close> makes for a document.\<close>

fun alloc_json :: "json \<Rightarrow> heap \<Rightarrow> hval \<times> heap"
and alloc_items :: "json list \<Rightarrow> heap \<Rightarrow> hval list \<times> heap"
and alloc_entries :: "(jsstring \<times> json) list \<Rightarrow> heap \<Rightarrow> (jsstring \<times> hval) list \<times> heap" where
  "alloc_json JNull h = (HNull, h)"
| "alloc_json (JBool b) h = (HBool b, h)"
| "alloc_json (JNum m e) h = (HNum m e, h)"
| "alloc_json (JStr s) h = (HStr s, h)"
| "alloc_json (JArr ts) h =
     (case alloc_items ts h of (vs, h') \<Rightarrow> (HRef (length h'), h' @ [ArrayCell vs]))"
| "alloc_json (JObj tes) h =
     (case alloc_entries tes h of (es, h') \<Rightarrow> (HRef (length h'), h' @ [ObjectCell es]))"
| "alloc_items [] h = ([], h)"
| "alloc_items (t # ts) h =
     (case alloc_json t h of (v, h') \<Rightarrow>
        (case alloc_items ts h' of (vs, h'') \<Rightarrow> (v # vs, h'')))"
| "alloc_entries [] h = ([], h)"
| "alloc_entries ((k, t) # tes) h =
     (case alloc_json t h of (v, h') \<Rightarrow>
        (case alloc_entries tes h' of (es, h'') \<Rightarrow> ((k, v) # es, h'')))"

text \<open>The depth to which a document has to be read.\<close>

fun json_depth :: "json \<Rightarrow> nat"
and depth_items :: "json list \<Rightarrow> nat"
and depth_entries :: "(jsstring \<times> json) list \<Rightarrow> nat" where
  "json_depth JNull = 1"
| "json_depth (JBool b) = 1"
| "json_depth (JNum m e) = 1"
| "json_depth (JStr s) = 1"
| "json_depth (JArr ts) = Suc (depth_items ts)"
| "json_depth (JObj tes) = Suc (depth_entries tes)"
| "depth_items [] = 0"
| "depth_items (t # ts) = max (json_depth t) (depth_items ts)"
| "depth_entries [] = 0"
| "depth_entries ((k, t) # tes) = max (json_depth t) (depth_entries tes)"

text \<open>
  What \<open>replaceInObject\<close> computes, on documents: strings with the placeholder replaced,
  arrays item by item, objects rebuilt by assigning their properties in order.
\<close>

fun fill :: "jsstring \<Rightarrow> jsstring \<Rightarrow> json \<Rightarrow> json"
and fill_items :: "jsstring \<Rightarrow> jsstring \<Rightarrow> json list \<Rightarrow> json list"
and fill_entries :: "jsstring \<Rightarrow> jsstring \<Rightarrow> (jsstring \<times> json) list \<Rightarrow> (jsstring \<times> json) list \<Rightarrow> (jsstring \<times> json) list" where
  "fill p r JNull = JNull"
| "fill p r (JBool b) = JBool b"
| "fill p r (JNum m e) = JNum m e"
| "fill p r (JStr s) = JStr (replace_global (match_literal p) r s)"
| "fill p r (JArr ts) = JArr (fill_items p r ts)"
| "fill p r (JObj tes) = JObj (fill_entries p r [] tes)"
| "fill_items p r [] = []"
| "fill_items p r (t # ts) = fill p r t # fill_items p r ts"
| "fill_entries p r acc [] = acc"
| "fill_entries p r acc ((k, t) # tes) = fill_entries p r (obj_set k (fill p r t) acc) tes"

section \<open>Generation Orchestrator\<close>

text \<open>What \<open>generateImage\<close> reads from the page about the button and its message.\<close>

record click =
  button_id :: "jsstring option"
  button_data_id :: "jsstring option"
  messageIndex :: int
  message_mesid :: "jsstring option"
  message_id :: "jsstring option"

definition attr_or :: "jsstring option \<Rightarrow> jsstring \<Rightarrow> jsstring" where
  "attr_or a other = (case a of None \<Rightarrow> other | Some s \<Rightarrow> if s \<noteq> [] then s else other)"

definition buttonSelector :: "click \<Rightarrow> jsstring \<Rightarrow> jsstring" where
  \<open>buttonSelector c prompt =
     (if attr_or (button_id c) [] \<noteq> [] then str ''#'' @ attr_or (button_id c) []
      else if attr_or (button_data_id c) [] \<noteq> []
      then str ''[data-id="'' @ attr_or (button_data_id c) [] @ str ''"]''
      else str ''.comfyui-generate-btn[data-prompt="''
           @ replace_global (match_literal [34]) [92, 34] prompt @ str ''"]'')\<close>

text \<open>The decimal text of a seed, as \<open>toString\<close> gives it for an integer that is not negative.\<close>

function decimal :: "int \<Rightarrow> jsstring" where
  "decimal n =
     (if n < 10 then [word_of_int (48 + n)]
      else decimal (n div 10) @ [word_of_int (48 + n mod 10)])"
  by pat_completeness auto
termination
  by (relation "measure nat") auto

definition generateClientId :: "jsstring \<Rightarrow> jsstring" where
  "generateClientId random_text = str ''comfyui_generator_'' @ random_text"

definition failed :: "gen_failure \<Rightarrow> jsstring \<Rightarrow> app_state \<Rightarrow> app_state" where
  "failed e buttonId st =
     st\<lparr>store := (store st)\<lparr>effects := effects (store st)
         @ [ToastError (GenerationFailed e), ButtonIdle buttonId]\<rparr>\<rparr>"

definition add_effects :: "effect list \<Rightarrow> app_state \<Rightarrow> app_state" where
  "add_effects es st = st\<lparr>store := (store st)\<lparr>effects := effects (store st) @ es\<rparr>\<rparr>"

text \<open>
  The parts of \<open>generateImage\<close>. The parameters besides the prompt, the button id and the
  state stand for what the function takes from its surroundings: the constructor of
  sockets, the random seed (an integer from 0 to \<open>2 ^ 32 - 1\<close>), the random text of the
  client id, the depth of the call stack that is left, whether \<open>fetch\<close> succeeds, and
  the page.
\<close>

definition finalPrompt_of :: "ext_settings \<Rightarrow> jsstring \<Rightarrow> jsstring" where
  "finalPrompt_of s prompt =
     (if custom_tags s \<noteq> [] \<and> js_trim (custom_tags s) \<noteq> []
      then js_trim (custom_tags s) @ str '', '' @ prompt else prompt)"

definition placeholder_of :: "ext_settings \<Rightarrow> jsstring" where
  "placeholder_of s =
     (if prompt_placeholder s \<noteq> [] then prompt_placeholder s else str ''%positive%'')"

text \<open>
  The first half of the \<open>try\<close> block: the stored text is parsed, the placeholder and
  \<open>%seed%\<close> are replaced, and the result is serialized. The workflow object lives in
  cells that the call makes itself, from an empty heap on.
\<close>

definition prepare_workflow :: "nat \<Rightarrow> ext_settings \<Rightarrow> jsstring \<Rightarrow> int \<Rightarrow> gen_failure + json" where
  "prepare_workflow stack s finalPrompt randomSeed =
     (let workflowJson = strip_bom (js_trim (workflow_json s))
      in if workflowJson = [] then Inl WorkflowEmpty
         else
           (case JSON_parse workflowJson of
              Inl e \<Rightarrow> Inl WorkflowFormat
            | Inr parsed \<Rightarrow>
                if \<not> (case parsed of JObj es \<Rightarrow> True | JArr xs \<Rightarrow> True | _ \<Rightarrow> False)
                then Inl WorkflowNotObject
                else
                  (let placeholder = placeholder_of s;
                       (workflow0, h0) = alloc_json parsed []
                   in case replaceInObject stack placeholder finalPrompt workflow0 h0 of
                        (None, h1) \<Rightarrow> Inl StackExhausted
                      | (Some workflow1, h1) \<Rightarrow>
                          (case replaceInObject stack (str ''%seed%'') (decimal randomSeed)
                                  workflow1 h1 of
                             (None, h2) \<Rightarrow> Inl StackExhausted
                           | (Some workflow, h2) \<Rightarrow>
                               (case read_json (Suc (length h2)) h2 workflow of
                                  None \<Rightarrow> Inl SerializationFailed
                                | Some body \<Rightarrow> Inr body)))))"

text \<open>The second half: the client id, the channel and the request.\<close>

definition submit_workflow :: "(jsstring \<Rightarrow> nat option) \<Rightarrow> jsstring \<Rightarrow> bool \<Rightarrow> job \<Rightarrow> json \<Rightarrow> app_state \<Rightarrow> js_error + app_state" where
  "submit_workflow new_WebSocket random_text fetch_ok j0 body st =
     (let clientId = generateClientId random_text;
          j = j0\<lparr>job_clientId := clientId\<rparr>
      in case connectWebSocket new_WebSocket clientId j st of
           Inl e \<Rightarrow> Inl e
         | Inr (None, st1) \<Rightarrow> Inr (failed NoWebSocket (job_buttonId j) st1)
         | Inr (Some ws, st1) \<Rightarrow>
             if fetch_ok
             then Inr (add_effects [PostPrompt body clientId, ToastSuccess RequestSent] st1)
             else Inr (failed FetchFailed (job_buttonId j)
                        (add_effects [PostPrompt body clientId] st1)))"

text \<open>\<open>generateImage\<close>. A rejection of the promise is the result \<open>Inl\<close>.\<close>

definition generateImage :: "(jsstring \<Rightarrow> nat option) \<Rightarrow> int \<Rightarrow> jsstring \<Rightarrow> nat \<Rightarrow> bool \<Rightarrow> click \<Rightarrow> jsstring \<Rightarrow> jsstring \<Rightarrow> app_state \<Rightarrow> js_error + app_state" where
  "generateImage new_WebSocket randomSeed random_text stack fetch_ok c prompt buttonId st =
     (case settings (store st) of
        None \<Rightarrow> Inl TypeError
      | Some s \<Rightarrow>
          if comfyui_url s = [] \<or> workflow_json s = []
          then Inr (add_effects [ToastError NotConfigured, ButtonIdle buttonId] st)
          else
            (let finalPrompt = finalPrompt_of s prompt;
                 j0 = \<lparr> job_prompt = prompt,
                        job_buttonId = buttonId,
                        job_finalPrompt = finalPrompt,
                        job_clientId = [],
                        job_messageIndex = messageIndex c,
                        job_messageId = attr_or (message_mesid c) (attr_or (message_id c) []),
                        job_buttonSelector = buttonSelector c prompt,
                        job_buttonUniqueId = attr_or (button_id c) (attr_or (button_data_id c) []) \<rparr>;
                 st0 = add_effects [ButtonBusy buttonId] st
             in case prepare_workflow stack s finalPrompt randomSeed of
                  Inl e \<Rightarrow> Inr (failed e buttonId st0)
                | Inr body \<Rightarrow>
                    submit_workflow new_WebSocket random_text fetch_ok j0 body st0))"

section \<open>Sample inputs and helpers for the statements\<close>

definition sample_info :: "code_unit \<Rightarrow> imageInfo" where
  "sample_info n =
     \<lparr> info_id = str ''comfyui-btn-'' @ [n],
       info_url = str ''http://127.0.0.1:8188/view?filename=a.png&type=output'',
       info_prompt = str ''a cat'',
       info_originalPrompt = str ''a cat'',
       info_customTags = [],
       info_filename = Some (JStr (str ''a.png'')),
       info_subfolder = Some (JStr []),
       info_type = Some (JStr (str ''output'')),
       info_buttonId = str ''comfyui-btn-'' @ [n],
       info_messageIndex = 0,
       info_messageId = [],
       info_buttonSelector = [] \<rparr>"

definition five_prompts :: "imageData list" where
  "five_prompts =
     map (\<lambda>n. (make_imageData (int n) (sample_info (of_nat n)))\<lparr>img_originalPrompt := [of_nat n]\<rparr>)
       [0, 1, 2, 3, 4]"

definition records_of :: "(int \<times> imageInfo) list \<Rightarrow> imageData list" where
  "records_of ops = map (\<lambda>(now, i). make_imageData now i) ops"

definition hundred_and_one :: "(int \<times> imageInfo) list" where
  "hundred_and_one = map (\<lambda>n. (int n, sample_info (of_nat n))) [0..<101]"

definition count_after_delete :: "jsstring \<Rightarrow> ext_state \<Rightarrow> nat option" where
  "count_after_delete i st =
     (case deleteImageEntry i st of
        Inl e \<Rightarrow> None
      | Inr (r, st') \<Rightarrow> Some (length (list_images st')))"

text \<open>The value of a call of \<open>deleteImageEntry\<close>.\<close>

definition value_of_delete :: "jsstring \<Rightarrow> ext_state \<Rightarrow> js_error + json option" where
  "value_of_delete i st = (case deleteImageEntry i st of Inl e \<Rightarrow> Inl e | Inr (r, st') \<Rightarrow> Inr r)"

definition once_saved :: "ext_state" where
  "once_saved = save_all [(1, sample_info 7)] empty_store"

definition twice_saved :: "ext_state" where
  "twice_saved = save_all [(1, sample_info 7), (2, sample_info 7)] empty_store"

definition always_found :: "imageData \<Rightarrow> bool" where
  "always_found d = True"

definition five_stored :: "ext_state" where
  "five_stored = empty_store\<lparr>settings :=
     Some ((DEFAULT_SETTINGS [])\<lparr>shares_default := False, generated_images := Some five_prompts\<rparr>)\<rparr>"

text \<open>The template of the validation scenario, and what the validator parses instead.\<close>

definition quoted_positive :: "jsstring" where
  \<open>quoted_positive = str ''{ "text": "%positive%" }''\<close>

definition quoted_positive_temp :: "jsstring" where
  \<open>quoted_positive_temp = str ''{ "text": ""temp_positive_placeholder"" }''\<close>

text \<open>Messages of the server, a payload that is no JSON text, and a job with its channel.\<close>

definition progress_message :: "jsstring" where
  \<open>progress_message = str ''{"type": "progress", "data": {"value": 3, "max": 20}}''\<close>

definition progress_data :: "json" where
  "progress_data =
     JObj [(str ''type'', JStr (str ''progress'')),
           (str ''data'', JObj [(str ''value'', JNum 3 0), (str ''max'', JNum 20 0)])]"

definition garbled_message :: "jsstring" where
  \<open>garbled_message = str ''{"type": "executed", "data": {"output": {"images": [''\<close>

definition sample_builtins :: "builtins" where
  "sample_builtins =
     \<lparr> encodeURIComponent = (\<lambda>v. case v of Some (JStr s) \<Rightarrow> Some s | _ \<Rightarrow> Some (str ''undefined'')),
       to_text = (\<lambda>v. case v of Some (JStr s) \<Rightarrow> s | _ \<Rightarrow> str ''undefined''),
       gt_zero = (\<lambda>v. case v of Some (JNum m e) \<Rightarrow> 0 < m | _ \<Rightarrow> False) \<rparr>"

definition sample_job :: "job" where
  "sample_job =
     \<lparr> job_prompt = str ''a cat'',
       job_buttonId = str ''comfyui-btn-1700000000000-k3j9x2m1q'',
       job_finalPrompt = str ''masterpiece, best quality, a cat'',
       job_clientId = str ''comfyui_generator_8f3k2j1m9xq'',
       job_messageIndex = 4,
       job_messageId = str ''4'',
       job_buttonSelector = str ''#comfyui-btn-1700000000000-k3j9x2m1q'',
       job_buttonUniqueId = str ''comfyui-btn-1700000000000-k3j9x2m1q'' \<rparr>"

definition idle_app :: "app_state" where
  "idle_app = \<lparr> store = empty_store, wsConnections = Map.empty, handlers = Map.empty, calls = [] \<rparr>"

definition always_socket :: "jsstring \<Rightarrow> nat option" where
  "always_socket url = Some 1"

definition never_socket :: "jsstring \<Rightarrow> nat option" where
  "never_socket url = None"

text \<open>The state after \<open>connectWebSocket\<close> has opened the channel of the sample job.\<close>

definition connected_app :: "app_state" where
  "connected_app =
     idle_app\<lparr> wsConnections := [job_clientId sample_job \<mapsto> 1],
               handlers := [job_clientId sample_job \<mapsto> sample_job] \<rparr>"

text \<open>A string of a template with two tokens, and replacement values.\<close>

definition two_tokens :: "jsstring" where
  "two_tokens = str ''%p% and %p%''"

definition dollar_ampersand :: "jsstring" where
  "dollar_ampersand = str ''$&''"

definition dollars_prompt :: "jsstring" where
  "dollars_prompt = str ''cash $$$ rain''"

text \<open>A configured program, a click, and the message of the server for a finished job.\<close>

definition sample_workflow :: "jsstring" where
  \<open>sample_workflow =
     str ''{"3": {"inputs": {"seed": "%seed%", "steps": 20}}, "6": {"inputs": {"text": "%positive%", "clip": ["4", 1]}}}''\<close>

definition configured_app :: "app_state" where
  "configured_app =
     idle_app\<lparr>store := empty_store\<lparr>settings :=
       Some ((DEFAULT_SETTINGS [])\<lparr> shares_default := False,
                                   workflow_json := sample_workflow,
                                   custom_tags := str ''masterpiece, best quality'' \<rparr>)\<rparr>\<rparr>"

definition sample_click :: "click" where
  "sample_click =
     \<lparr> button_id = Some (str ''comfyui-btn-1700000000000-k3j9x2m1q''),
       button_data_id = Some (str ''comfyui-btn-1700000000000-k3j9x2m1q''),
       messageIndex = 4,
       message_mesid = Some (str ''4''),
       message_id = None \<rparr>"

definition executed_message :: "jsstring" where
  \<open>executed_message =
     str ''{"type": "executed", "data": {"output": {"images": [{"filename": "a.png", "subfolder": "", "type": "output"}]}}}''\<close>

definition executed_images :: "json" where
  "executed_images =
     JArr [JObj [(str ''filename'', JStr (str ''a.png'')), (str ''subfolder'', JStr []),
                 (str ''type'', JStr (str ''output''))]]"

text \<open>The program after the click, and after the message that follows.\<close>

definition after_click :: "js_error + app_state" where
  "after_click =
     generateImage always_socket 305419896 (str ''8f3k2j1m9xq'') 100 True
       sample_click (str ''a cat'') (str ''comfyui-btn-1700000000000-k3j9x2m1q'') configured_app"

definition after_message :: "js_error + app_state" where
  "after_message =
     (case after_click of
        Inl e \<Rightarrow> Inl e
      | Inr st \<Rightarrow>
          Inr (ws_dispatch sample_builtins 1700000012345 (str ''comfyui_generator_8f3k2j1m9xq'')
                 (MessageEvent executed_message) st))"

definition stored_ids :: "js_error + app_state \<Rightarrow> jsstring list" where
  "stored_ids r = (case r of Inl e \<Rightarrow> [] | Inr st \<Rightarrow> map img_id (list_images (store st)))"

definition posted :: "js_error + app_state \<Rightarrow> effect list" where
  "posted r =
     (case r of
        Inl e \<Rightarrow> []
      | Inr st \<Rightarrow> filter (\<lambda>e. case e of PostPrompt w c \<Rightarrow> True | _ \<Rightarrow> False) (effects (store st)))"

text \<open>A document in the heap, and an object with the key \<open>__proto__\<close>.\<close>

definition sample_document :: "json" where
  "sample_document =
     JObj [(str ''6'', JObj [(str ''inputs'',
        JObj [(str ''text'', JStr two_tokens), (str ''clip'', JArr [JStr (str ''4''), JNum 1 0])])])]"

definition sample_filled :: "json" where
  "sample_filled =
     JObj [(str ''6'', JObj [(str ''inputs'',
        JObj [(str ''text'', JStr (str ''X and X'')),
              (str ''clip'', JArr [JStr (str ''4''), JNum 1 0])])])]"

definition sample_root :: "hval" where
  "sample_root = fst (alloc_json sample_document [])"

definition sample_heap :: "heap" where
  "sample_heap = snd (alloc_json sample_document [])"

definition proto_document :: "json" where
  "proto_document = JObj [(str ''__proto__'', JNum 1 0), (str ''a'', JNum 2 0)]"

definition posted_client_ids :: "js_error + app_state \<Rightarrow> jsstring list" where
  "posted_client_ids r =
     concat (map (\<lambda>e. case e of PostPrompt w c \<Rightarrow> [c] | _ \<Rightarrow> []) (posted r))"

definition clicked_app :: "app_state" where
  "clicked_app = (case after_click of Inl e \<Rightarrow> idle_app | Inr st \<Rightarrow> st)"

text \<open>The other housekeeping messages, and a message of a type the program does not know.\<close>

definition monitor_message :: "jsstring" where
  \<open>monitor_message = str ''{"type": "crystools.monitor", "data": {"cpu_utilization": 12.5}}''\<close>

definition status_message :: "jsstring" where
  \<open>status_message = str ''{"type": "status", "data": {"status": {"exec_info": {"queue_remaining": 1}}}}''\<close>

definition executing_message :: "jsstring" where
  \<open>executing_message = str ''{"type": "executing", "data": {"node": "3"}}''\<close>

text \<open>The workflow that the click submits.\<close>

definition submitted_workflow :: "json" where
  "submitted_workflow =
     JObj [(str ''3'', JObj [(str ''inputs'',
              JObj [(str ''seed'', JStr (str ''305419896'')), (str ''steps'', JNum 20 0)])]),
           (str ''6'', JObj [(str ''inputs'',
              JObj [(str ''text'', JStr (str ''masterpiece, best quality, a cat'')),
                    (str ''clip'', JArr [JStr (str ''4''), JNum 1 0])])])]"

section \<open>The parser terminates within its fuel\<close>

lemma skip_ws_length: "length (skip_ws s) \<le> length s"
  by (simp add: skip_ws_def length_dropWhile_le)

lemma skip_ws_Cons: "skip_ws s = c # r \<Longrightarrow> length r < length s"
  using skip_ws_length[of s] by simp

lemma ok_cons_Ok: "ok_cons c p = Ok x r \<Longrightarrow> \<exists>y. p = Ok y r"
  by (cases p) (simp_all add: ok_cons_def)

lemma parse_string_chars_length:
  "parse_string_chars s = Ok x r \<Longrightarrow> length r < length s"
proof (induction "length s" arbitrary: s x rule: less_induct)
  case less
  show ?case
  proof (cases s)
    case Nil
    with less.prems show ?thesis by simp
  next
    case (Cons c t)
    have rec: "\<And>u y. parse_string_chars u = Ok y r \<Longrightarrow> length u < length s
                 \<Longrightarrow> length r < length u"
      using less.hyps by blast
    consider (quote) "c = 34" | (esc) "c \<noteq> 34" "c = 92" | (ctl) "c \<noteq> 34" "c \<noteq> 92" "c < 32"
      | (plain) "c \<noteq> 34" "c \<noteq> 92" "\<not> c < 32" by blast
    then show ?thesis
    proof cases
      case quote
      with less.prems Cons show ?thesis by simp
    next
      case ctl
      with less.prems Cons show ?thesis by simp
    next
      case plain
      with less.prems Cons obtain y where "parse_string_chars t = Ok y r"
        by (auto dest: ok_cons_Ok)
      from rec[OF this] Cons show ?thesis by simp
    next
      case esc
      show ?thesis
      proof (cases t)
        case Nil
        with esc less.prems Cons show ?thesis by simp
      next
        case t: (Cons e t')
        show ?thesis
        proof (cases "e = 117")
          case False
          with esc t less.prems Cons obtain y where "parse_string_chars t' = Ok y r"
            by (auto dest: ok_cons_Ok split: option.splits)
          from rec[OF this] Cons t show ?thesis by simp
        next
          case True
          with esc t less.prems Cons obtain h1 h2 h3 h4 t'' y where
            u: "t' = h1 # h2 # h3 # h4 # t''" "parse_string_chars t'' = Ok y r"
            by (auto dest: ok_cons_Ok split: list.splits option.splits)
          from rec[OF u(2)] Cons t u(1) show ?thesis by simp
        qed
      qed
    qed
  qed
qed

lemma ok_cons_Fuel: "ok_cons c p = Fuel \<Longrightarrow> p = Fuel"
  by (cases p) (simp_all add: ok_cons_def)

lemma parse_string_chars_no_fuel: "parse_string_chars s \<noteq> Fuel"
proof (induction "length s" arbitrary: s rule: less_induct)
  case less
  show ?case
  proof (cases s)
    case Nil
    then show ?thesis by simp
  next
    case (Cons c t)
    have rec: "\<And>u. length u < length s \<Longrightarrow> parse_string_chars u \<noteq> Fuel"
      using less.hyps by blast
    show ?thesis
    proof
      assume f: "parse_string_chars s = Fuel"
      consider (plain) "c \<noteq> 34" "c \<noteq> 92" "\<not> c < 32" | (esc) "c \<noteq> 34" "c = 92"
        | (other) "c = 34 \<or> (c \<noteq> 92 \<and> c < 32)" by blast
      then show False
      proof cases
        case other
        with f Cons show ?thesis by (auto split: if_splits)
      next
        case plain
        with f Cons have "parse_string_chars t = Fuel" by (auto dest: ok_cons_Fuel)
        with rec[of t] Cons show ?thesis by simp
      next
        case esc
        show ?thesis
        proof (cases t)
          case Nil
          with esc f Cons show ?thesis by simp
        next
          case t: (Cons e t')
          show ?thesis
          proof (cases "e = 117")
            case False
            with esc t f Cons have "parse_string_chars t' = Fuel"
              by (auto dest: ok_cons_Fuel split: option.splits)
            with rec[of t'] Cons t show ?thesis by simp
          next
            case True
            with esc t f Cons obtain h1 h2 h3 h4 t'' where
              u: "t' = h1 # h2 # h3 # h4 # t''" "parse_string_chars t'' = Fuel"
              by (auto dest: ok_cons_Fuel split: list.splits option.splits)
            with rec[of t''] Cons t show ?thesis by simp
          qed
        qed
      qed
    qed
  qed
qed

lemma parse_number_length:
  assumes a: "parse_number s = Ok v r"
  shows "length r < length s"
proof -
  define s1 where "s1 = (if (case s of c # r \<Rightarrow> c = 45 | [] \<Rightarrow> False) then tl s else s)"
  define ip where
    "ip = (case s1 of c # r \<Rightarrow> if c = 48 then [c] else takeWhile is_digit s1 | [] \<Rightarrow> [])"
  define s2 where "s2 = drop (length ip) s1"
  define has_frac where "has_frac = (case s2 of c # r \<Rightarrow> c = 46 | [] \<Rightarrow> False)"
  define s3 where "s3 = (if has_frac then dropWhile is_digit (tl s2) else s2)"
  define has_exp where "has_exp = (case s3 of c # r \<Rightarrow> c = 101 \<or> c = 69 | [] \<Rightarrow> False)"
  define s4 where "s4 = (if has_exp then tl s3 else s3)"
  define s5 where
    "s5 = (if (case s4 of c # r \<Rightarrow> has_exp \<and> c = 45 | [] \<Rightarrow> False)
              \<or> (case s4 of c # r \<Rightarrow> has_exp \<and> c = 43 | [] \<Rightarrow> False) then tl s4 else s4)"
  define s6 where "s6 = (if has_exp then dropWhile is_digit s5 else s3)"
  have l1: "length s1 \<le> length s" by (simp add: s1_def)
  from a have ip: "ip \<noteq> []"
    unfolding parse_number_def Let_def ip_def s1_def by (auto split: if_splits)
  have "length ip \<le> length s1"
    by (auto simp add: ip_def length_takeWhile_le split: list.splits)
  with ip have l2: "length s2 < length s1" by (cases ip) (auto simp add: s2_def)
  have "length (dropWhile is_digit (tl s2)) \<le> length (tl s2)" by (rule length_dropWhile_le)
  then have l3: "length s3 \<le> length s2" by (auto simp add: s3_def)
  have l4: "length s4 \<le> length s3" by (simp add: s4_def)
  have l5: "length s5 \<le> length s4" by (simp add: s5_def)
  have "length (dropWhile is_digit s5) \<le> length s5" by (rule length_dropWhile_le)
  with l4 l5 have l6: "length s6 \<le> length s3" by (simp add: s6_def)
  from a have "r = s6"
    unfolding parse_number_def Let_def
    unfolding s1_def[symmetric] ip_def[symmetric] s2_def[symmetric] has_frac_def[symmetric]
      s3_def[symmetric] has_exp_def[symmetric] s4_def[symmetric] s5_def[symmetric]
      s6_def[symmetric]
    by (simp split: if_splits)
  with l1 l2 l3 l6 show ?thesis by simp
qed

lemma literal_length: "literal s = Ok v r \<Longrightarrow> length r < length s"
  by (cases s) (auto simp add: literal_def str_def split: if_splits)

lemma parse_fuel:
  "2 * length s < f \<Longrightarrow>
     parse_value f s \<noteq> Fuel \<and> (\<forall>v r. parse_value f s = Ok v r \<longrightarrow> length r < length s)"
  "2 * length s + 1 < f \<Longrightarrow>
     parse_elems f vs s \<noteq> Fuel \<and> (\<forall>v r. parse_elems f vs s = Ok v r \<longrightarrow> length r < length s)"
  "2 * length s + 1 < f \<Longrightarrow>
     parse_members f es s \<noteq> Fuel
     \<and> (\<forall>v r. parse_members f es s = Ok v r \<longrightarrow> length r < length s)"
proof (induction f s and f vs s and f es s rule: parse_value_parse_elems_parse_members.induct)
  case (1 s)
  then show ?case by simp
next
  case (2 f s)
  show ?case
  proof (cases "skip_ws s")
    case Nil
    then show ?thesis by simp
  next
    case (Cons c r)
    from skip_ws_Cons[OF Cons] have lr: "length r < length s" .
    consider (obj) "c = 123" | (arr) "c \<noteq> 123" "c = 91" | (strg) "c \<noteq> 123" "c \<noteq> 91" "c = 34"
      | (num) "c \<noteq> 123" "c \<noteq> 91" "c \<noteq> 34" "c = 45 \<or> is_digit c"
      | (lit) "c \<noteq> 123" "c \<noteq> 91" "c \<noteq> 34" "\<not> (c = 45 \<or> is_digit c)" by blast
    then show ?thesis
    proof cases
      case obj
      show ?thesis
      proof (cases "skip_ws r")
        case Nil
        with Cons obj show ?thesis by simp
      next
        case r: (Cons c' r')
        from skip_ws_Cons[OF r] have lr': "length r' < length r" .
        show ?thesis
        proof (cases "c' = 125")
          case True
          with Cons obj r lr lr' show ?thesis by simp
        next
          case False
          from "2.prems" lr have "2 * length r + 1 < f" by simp
          from "2.IH"(1)[OF Cons obj r False this] Cons obj r False lr show ?thesis by auto
        qed
      qed
    next
      case arr
      show ?thesis
      proof (cases "skip_ws r")
        case Nil
        with Cons arr show ?thesis by simp
      next
        case r: (Cons c' r')
        from skip_ws_Cons[OF r] have lr': "length r' < length r" .
        show ?thesis
        proof (cases "c' = 93")
          case True
          with Cons arr r lr lr' show ?thesis by simp
        next
          case False
          from "2.prems" lr have "2 * length r + 1 < f" by simp
          from "2.IH"(2)[OF Cons arr r False this] Cons arr r False lr show ?thesis by auto
        qed
      qed
    next
      case strg
      show ?thesis
      proof (cases "parse_string_chars r")
        case (Ok x r')
        from parse_string_chars_length[OF Ok] lr have "length r' < length s" by simp
        with Cons strg Ok show ?thesis by simp
      next
        case (Err n)
        with Cons strg show ?thesis by simp
      next
        case Fuel
        with parse_string_chars_no_fuel[of r] show ?thesis by simp
      qed
    next
      case num
      have nf: "parse_number (c # r) \<noteq> Fuel"
        by (simp add: parse_number_def Let_def)
      from num Cons have e: "parse_value (Suc f) s = parse_number (c # r)" by simp
      from lr parse_number_length[of "c # r"] have
        "\<forall>v r'. parse_number (c # r) = Ok v r' \<longrightarrow> length r' < length s"
        using skip_ws_length[of s] Cons by fastforce
      with nf e show ?thesis by simp
    next
      case lit
      have nf: "literal (c # r) \<noteq> Fuel"
        by (simp add: literal_def)
      from lit Cons have e: "parse_value (Suc f) s = literal (c # r)" by simp
      from lr literal_length[of "c # r"] have
        "\<forall>v r'. literal (c # r) = Ok v r' \<longrightarrow> length r' < length s"
        using skip_ws_length[of s] Cons by fastforce
      with nf e show ?thesis by simp
    qed
  qed
next
  case (3 vs s)
  then show ?case by simp
next
  case (4 f vs s)
  from "4.prems" have pv: "2 * length s < f" by simp
  note v = "4.IH"(1)[OF pv]
  show ?case
  proof (cases "parse_value f s")
    case (Ok v1 r)
    with v have lr: "length r < length s" by simp
    show ?thesis
    proof (cases "skip_ws r")
      case Nil
      with Ok show ?thesis by simp
    next
      case (Cons c r')
      from skip_ws_Cons[OF Cons] have lr': "length r' < length r" .
      show ?thesis
      proof (cases "c = 44")
        case True
        from "4.prems" lr lr' have "2 * length r' + 1 < f" by simp
        from "4.IH"(2)[OF Ok Cons True this] Ok Cons True lr lr' show ?thesis by auto
      next
        case False
        with Ok Cons lr lr' show ?thesis by simp
      qed
    qed
  next
    case (Err n)
    then show ?thesis by simp
  next
    case Fuel
    with v show ?thesis by simp
  qed
next
  case (5 es s)
  then show ?case by simp
next
  case (6 f es s)
  show ?case
  proof (cases "skip_ws s")
    case Nil
    then show ?thesis by simp
  next
    case (Cons c r)
    from skip_ws_Cons[OF Cons] have lr: "length r < length s" .
    show ?thesis
    proof (cases "c \<noteq> 34")
      case True
      with Cons show ?thesis by simp
    next
      case c: False
      show ?thesis
      proof (cases "parse_string_chars r")
        case (Err n)
        with Cons c show ?thesis by simp
      next
        case Fuel
        with parse_string_chars_no_fuel[of r] show ?thesis by simp
      next
        case (Ok k r1)
        from parse_string_chars_length[OF Ok] have lr1: "length r1 < length r" .
        show ?thesis
        proof (cases "skip_ws r1")
          case Nil
          with Cons c Ok show ?thesis by simp
        next
          case r1: (Cons c1 r2)
          from skip_ws_Cons[OF r1] have lr2: "length r2 < length r1" .
          show ?thesis
          proof (cases "c1 \<noteq> 58")
            case True
            with Cons c Ok r1 show ?thesis by simp
          next
            case c1: False
            from "6.prems" lr lr1 lr2 have pv: "2 * length r2 < f" by simp
            note v = "6.IH"(1)[OF Cons c Ok r1 c1 pv]
            show ?thesis
            proof (cases "parse_value f r2")
              case (Err n)
              with Cons c Ok r1 c1 show ?thesis by simp
            next
              case Fuel
              with v show ?thesis by simp
            next
              case v3: (Ok v3 r3)
              with v have lr3: "length r3 < length r2" by simp
              show ?thesis
              proof (cases "skip_ws r3")
                case Nil
                with Cons c Ok r1 c1 v3 show ?thesis by simp
              next
                case r3: (Cons c3 r4)
                from skip_ws_Cons[OF r3] have lr4: "length r4 < length r3" .
                show ?thesis
                proof (cases "c3 = 44")
                  case True
                  from "6.prems" lr lr1 lr2 lr3 lr4 have "2 * length r4 + 1 < f" by simp
                  from "6.IH"(2)[OF Cons c Ok r1 c1 v3 r3 True this]
                  show ?thesis using Cons c Ok r1 c1 v3 r3 True lr lr1 lr2 lr3 lr4 by auto
                next
                  case False
                  with Cons c Ok r1 c1 v3 r3 lr lr1 lr2 lr3 lr4 show ?thesis by simp
                qed
              qed
            qed
          qed
        qed
      qed
    qed
  qed
qed

text \<open>\<open>JSON_parse\<close> never runs out of fuel: a failure it reports is a syntax error.\<close>

lemma parse_value_fuel: "parse_value (2 * length s + 2) s \<noteq> Fuel"
  using parse_fuel(1)[of s "2 * length s + 2"] by simp

section \<open>Properties of the store\<close>

lemma images_of_Some [simp]: "images_of (s\<lparr>generated_images := Some xs\<rparr>) = xs"
  by (simp add: images_of_def)

lemma images_of_Some_unshared [simp]:
  "images_of (s\<lparr>generated_images := Some xs, shares_default := b\<rparr>) = xs"
  by (simp add: images_of_def)

lemma list_images_save:
  "list_images (saveGeneratedImage now imageInfo st)
     = take 100 (make_imageData now imageInfo # list_images st)"
proof -
  have A: "\<And>xs :: imageData list. \<not> 100 < length xs \<Longrightarrow> take 100 xs = xs"
    by simp
  show ?thesis
    by (cases "settings st")
       (auto simp add: saveGeneratedImage_def list_images_def Let_def images_of_def
          DEFAULT_SETTINGS_def A split: option.splits simp del: take_all_iff)
qed

lemma take_append_take: "take n (ys @ take n zs) = take n (ys @ zs)"
  by (simp add: min_def)

lemma list_images_save_all:
  "list_images (save_all ops st)
     = take 100 (rev (map (\<lambda>(now, i). make_imageData now i) ops) @ list_images st)
       \<or> ops = []"
proof (induction ops arbitrary: st)
  case Nil
  then show ?case by simp
next
  case (Cons a ops)
  obtain now i where a: "a = (now, i)" by (cases a)
  let ?st' = "saveGeneratedImage now i st"
  let ?new = "rev (map (\<lambda>(now, i). make_imageData now i) ops)"
  show ?case
  proof (cases "ops = []")
    case True
    then show ?thesis by (simp add: a list_images_save)
  next
    case False
    with Cons.IH[of ?st']
    have "list_images (save_all ops ?st') = take 100 (?new @ list_images ?st')" by simp
    also have "\<dots> = take 100 (?new @ take 100 (make_imageData now i # list_images st))"
      by (simp add: list_images_save)
    also have "\<dots> = take 100 (?new @ make_imageData now i # list_images st)"
      by (rule take_append_take)
    finally show ?thesis by (simp add: a)
  qed
qed

text \<open>
  C7. Appending never leaves more than 100 records, the records are kept newest first, and
  after 101 appends to an empty store the list holds the 100 latest records, without the
  first one appended.
\<close>

theorem save_all_capacity:
  assumes "ops \<noteq> [] \<or> length (list_images st) \<le> 100"
  shows "length (list_images (save_all ops st)) \<le> 100
       \<and> list_images (save_all ops st) = take 100 (rev (records_of ops) @ list_images st)
       \<and> (list_images st = [] \<and> length ops = 101
            \<longrightarrow> list_images (save_all ops st) = rev (records_of (tl ops)))"
proof -
  have eq: "list_images (save_all ops st) = take 100 (rev (records_of ops) @ list_images st)"
  proof (cases "ops = []")
    case True
    with assms show ?thesis by (simp add: records_of_def)
  next
    case False
    with list_images_save_all[of ops st] show ?thesis by (simp add: records_of_def)
  qed
  have last: "list_images (save_all ops st) = rev (records_of (tl ops))"
    if e: "list_images st = []" and l: "length ops = 101"
  proof -
    from l obtain a rest where ops: "ops = a # rest" and r: "length rest = 100"
      by (cases ops) auto
    have "length (rev (records_of rest)) = 100" using r by (simp add: records_of_def)
    then show ?thesis using eq e ops by (simp add: records_of_def)
  qed
  from eq last show ?thesis by simp
qed

theorem save_all_capacity_witness:
  "length (list_images (save_all hundred_and_one empty_store)) \<le> 100
   \<and> list_images (save_all hundred_and_one empty_store) = rev (records_of (tl hundred_and_one))"
proof -
  have n: "length hundred_and_one = 101" by (simp add: hundred_and_one_def)
  have e: "list_images empty_store = []"
    by (simp add: empty_store_def list_images_def images_of_def DEFAULT_SETTINGS_def)
  have h: "hundred_and_one \<noteq> [] \<or> length (list_images empty_store) \<le> 100" using e by simp
  from save_all_capacity[OF h]
  have b: "length (list_images (save_all hundred_and_one empty_store)) \<le> 100"
    and l: "list_images empty_store = [] \<and> length hundred_and_one = 101
            \<longrightarrow> list_images (save_all hundred_and_one empty_store)
                = rev (records_of (tl hundred_and_one))"
    by blast+
  from b l n e show ?thesis by blast
qed

lemma once_saved_settings:
  "settings once_saved
     = Some ((DEFAULT_SETTINGS [])\<lparr>shares_default := False,
         generated_images := Some [make_imageData 1 (sample_info 7)]\<rparr>)"
  by (simp add: once_saved_def empty_store_def saveGeneratedImage_def Let_def
      DEFAULT_SETTINGS_def images_of_def)

lemma once_saved_list: "list_images once_saved = [make_imageData 1 (sample_info 7)]"
  by (simp add: list_images_def once_saved_settings)

text \<open>
  C5, as the code has it. A call of \<open>deleteImageEntry\<close> has no value (\<open>undefined\<close>); it
  reports by a toast. With no record of the id the list is as before and an error toast
  is shown. With one record of the id, that record is taken out and the others stay in
  their order, so the list gets shorter by exactly one; the settings are saved, a success
  toast is shown and the history is rendered again.
\<close>

theorem deleteImageEntry_removes_record:
  assumes "settings st = Some s"
    and "length (filter (\<lambda>img. img_id img = i) (list_images st)) \<le> 1"
  shows "\<exists>st'. deleteImageEntry i st = Inr (None, st')
       \<and> list_images st' = filter (\<lambda>img. img_id img \<noteq> i) (list_images st)
       \<and> (i \<notin> img_id ` set (list_images st)
            \<longrightarrow> list_images st' = list_images st
              \<and> effects st' = effects st @ [ToastError RecordNotFound])
       \<and> (i \<in> img_id ` set (list_images st)
            \<longrightarrow> length (list_images st') + 1 = length (list_images st)
              \<and> effects st' = effects st
                  @ [SaveSettingsDebounced, ToastSuccess RecordDeleted, RenderImageHistory])"
proof -
  let ?xs = "images_of s"
  let ?keep = "filter (\<lambda>img. img_id img \<noteq> i) ?xs"
  let ?gone = "filter (\<lambda>img. img_id img = i) ?xs"
  have l: "list_images st = ?xs" using assms(1) by (simp add: list_images_def)
  have sum: "length ?keep + length ?gone = length ?xs"
    using sum_length_filter_compl[of "\<lambda>img. img_id img \<noteq> i" ?xs] by simp
  have absent: "?keep = ?xs" if "i \<notin> img_id ` set ?xs"
    using that by (auto simp add: filter_id_conv)
  have one: "length ?gone = 1" if "i \<in> img_id ` set ?xs"
  proof -
    from that have "?gone \<noteq> []" by (auto simp add: filter_empty_conv)
    then have a: "1 \<le> length ?gone" by (simp add: Suc_le_eq)
    have b: "length ?gone \<le> 1" using assms(2) l by simp
    show ?thesis by (rule le_antisym[OF b a])
  qed
  have present: "length ?keep + 1 = length ?xs" "length ?keep < length ?xs"
    if "i \<in> img_id ` set ?xs"
    using one[OF that] sum by simp_all
  show ?thesis
    using assms(1) absent present
    by (auto simp add: deleteImageEntry_def Let_def list_images_def)
qed

theorem deleteImageEntry_removes_record_witness:
  "list_images once_saved = [make_imageData 1 (sample_info 7)]
   \<and> count_after_delete (info_id (sample_info 7)) once_saved = Some 0
   \<and> value_of_delete (info_id (sample_info 7)) once_saved = Inr None"
proof -
  have h: "length (filter (\<lambda>img. img_id img = info_id (sample_info 7)) (list_images once_saved))
             \<le> 1"
    by (simp add: once_saved_list)
  have p: "info_id (sample_info 7) \<in> img_id ` set (list_images once_saved)"
    by (simp add: once_saved_list make_imageData_def)
  from deleteImageEntry_removes_record[OF once_saved_settings h] p
  obtain st' where
    d: "deleteImageEntry (info_id (sample_info 7)) once_saved = Inr (None, st')"
       "length (list_images st') + 1 = length (list_images once_saved)"
    by blast
  from d(2) have "length (list_images st') = 0" by (simp add: once_saved_list)
  with d(1) once_saved_list show ?thesis
    by (simp add: count_after_delete_def value_of_delete_def)
qed

text \<open>
  C5 as stated fails: with a record of the id in the store, the call takes the record out
  and its value is \<open>undefined\<close>, not \<open>true\<close>.
\<close>

theorem deleteImageEntry_counterexample:
  "map img_id (list_images once_saved) = [info_id (sample_info 7)]
   \<and> count_after_delete (info_id (sample_info 7)) once_saved = Some 0
   \<and> value_of_delete (info_id (sample_info 7)) once_saved = Inr None
   \<and> value_of_delete (info_id (sample_info 7)) once_saved \<noteq> Inr (Some (JBool True))"
  by (simp add: once_saved_def empty_store_def saveGeneratedImage_def Let_def
      DEFAULT_SETTINGS_def images_of_def list_images_def make_imageData_def
      count_after_delete_def value_of_delete_def deleteImageEntry_def)

text \<open>
  Two records saved from the same button have the same id, and one call of
  \<open>deleteImageEntry\<close> takes both out of the store.
\<close>

lemma delete_of_shared_id:
  "map img_id (list_images twice_saved) = [info_id (sample_info 7), info_id (sample_info 7)]
   \<and> count_after_delete (info_id (sample_info 7)) twice_saved = Some 0"
  by (simp add: twice_saved_def empty_store_def saveGeneratedImage_def Let_def
      DEFAULT_SETTINGS_def images_of_def list_images_def make_imageData_def
      count_after_delete_def deleteImageEntry_def)

lemma restore_timers_delay:
  assumes "(delay, a) \<in> set (restore_timers findButton imgs)"
  shows "delay + 700 \<le> totalDelay (length imgs)"
proof -
  from assms obtain index d where "(index, d) \<in> set (enumerate 0 imgs)" and "delay = index * 200"
    by (auto simp add: restore_timers_def)
  then have "index < length imgs" by (simp add: in_set_enumerate_eq)
  with \<open>delay = index * 200\<close> show ?thesis by (simp add: totalDelay_def)
qed

lemma enumerate_index: "enumerate 0 xs = map (\<lambda>i. (i, xs ! i)) [0..<length xs]"
  by (rule nth_equalityI) (simp_all add: nth_enumerate_eq)

lemma restore_timers_index:
  "restore_timers findButton imgs
     = map (\<lambda>i. (i * 200, RestoreImage (imgs ! i)))
         (filter (\<lambda>i. findButton (imgs ! i)) [0..<length imgs])"
  unfolding restore_timers_def enumerate_index
  by (simp add: filter_map comp_def)

text \<open>
  C4, as the code has it. For the \<open>n\<close> records selected, the timers started are one
  restoration timer at \<open>index * 200\<close> ms for each index from 0 to \<open>n - 1\<close> whose button
  was found, in this order, and one summary timer at \<open>n * 200 + 500\<close> ms. The timers run
  side by side, and the summary timer is set later than every restoration timer by at
  least 700 ms.
\<close>

theorem summary_after_every_restoration:
  assumes "restoreStoredImages findButton st = Inr timers" and "timers \<noteq> []"
  shows "timers
           = map (\<lambda>i. (i * 200, RestoreImage (imagesToRestore_of st ! i)))
               (filter (\<lambda>i. findButton (imagesToRestore_of st ! i))
                  [0..<length (imagesToRestore_of st)])
             @ [(length (imagesToRestore_of st) * 200 + 500, Summary)]
       \<and> filter (\<lambda>t. snd t = Summary) timers
           = [(totalDelay (length (latestImagesByPrompt (list_images st))), Summary)]
       \<and> (\<forall>t \<in> set timers. snd t \<noteq> Summary
            \<longrightarrow> fst t + 700 \<le> totalDelay (length (latestImagesByPrompt (list_images st))))"
proof -
  from assms obtain s where s: "settings st = Some s"
    by (auto simp add: restoreStoredImages_def split: option.splits)
  let ?imgs = "map snd (latestImagesByPrompt (images_of s))"
  have t: "timers = restore_timers findButton ?imgs @ [(totalDelay (length ?imgs), Summary)]"
    using assms s by (auto simp add: restoreStoredImages_def Let_def split: if_splits)
  have f: "filter (\<lambda>t. snd t = Summary) (restore_timers findButton ?imgs) = []"
    by (auto simp add: filter_empty_conv restore_timers_def)
  have l: "list_images st = images_of s" using s by (simp add: list_images_def)
  have i: "imagesToRestore_of st = ?imgs" by (simp add: imagesToRestore_of_def l)
  show ?thesis
  proof (intro conjI ballI impI)
    show "timers
           = map (\<lambda>i. (i * 200, RestoreImage (imagesToRestore_of st ! i)))
               (filter (\<lambda>i. findButton (imagesToRestore_of st ! i))
                  [0..<length (imagesToRestore_of st)])
             @ [(length (imagesToRestore_of st) * 200 + 500, Summary)]"
      unfolding i t restore_timers_index by (simp add: totalDelay_def)
  next
    show "filter (\<lambda>t. snd t = Summary) timers
           = [(totalDelay (length (latestImagesByPrompt (list_images st))), Summary)]"
      using t f l by simp
  next
    fix x assume x: "x \<in> set timers" and n: "snd x \<noteq> Summary"
    then have "x \<in> set (restore_timers findButton ?imgs)" using t by auto
    then have "fst x + 700 \<le> totalDelay (length ?imgs)"
      using restore_timers_delay[of "fst x" "snd x" findButton ?imgs] by simp
    then show "fst x + 700 \<le> totalDelay (length (latestImagesByPrompt (list_images st)))"
      using l by simp
  qed
qed

lemma five_grouped: "map snd (latestImagesByPrompt five_prompts) = five_prompts"
  by (simp add: latestImagesByPrompt_def five_prompts_def group_step_def promptKey_def
      make_imageData_def sample_info_def)

lemma five_timers:
  "restoreStoredImages always_found five_stored
     = Inr [(0, RestoreImage (five_prompts ! 0)), (200, RestoreImage (five_prompts ! 1)),
            (400, RestoreImage (five_prompts ! 2)), (600, RestoreImage (five_prompts ! 3)),
            (800, RestoreImage (five_prompts ! 4)), (1500, Summary)]"
proof -
  have len: "length five_prompts = 5" by (simp add: five_prompts_def)
  have en: "enumerate 0 five_prompts = zip [0, 1, 2, 3, 4] five_prompts"
    by (simp add: five_prompts_def)
  have "restore_timers always_found five_prompts
     = [(0, RestoreImage (five_prompts ! 0)), (200, RestoreImage (five_prompts ! 1)),
        (400, RestoreImage (five_prompts ! 2)), (600, RestoreImage (five_prompts ! 3)),
        (800, RestoreImage (five_prompts ! 4))]"
    unfolding restore_timers_def en by (simp add: always_found_def five_prompts_def)
  moreover have "length (latestImagesByPrompt five_prompts) = 5"
    using five_grouped len by (metis length_map)
  moreover have "five_prompts \<noteq> []" using len by auto
  moreover note len
  ultimately show ?thesis
    by (simp add: restoreStoredImages_def five_stored_def empty_store_def Let_def
        five_grouped totalDelay_def DEFAULT_SETTINGS_def images_of_def)
qed

theorem summary_after_every_restoration_witness:
  "[(0, RestoreImage (five_prompts ! 0)), (200, RestoreImage (five_prompts ! 1)),
    (400, RestoreImage (five_prompts ! 2)), (600, RestoreImage (five_prompts ! 3)),
    (800, RestoreImage (five_prompts ! 4)), (1500, Summary)]
     = map (\<lambda>i. (i * 200, RestoreImage (imagesToRestore_of five_stored ! i)))
         (filter (\<lambda>i. always_found (imagesToRestore_of five_stored ! i))
            [0..<length (imagesToRestore_of five_stored)])
       @ [(length (imagesToRestore_of five_stored) * 200 + 500, Summary)]
   \<and> filter (\<lambda>t. snd t = Summary)
     [(0, RestoreImage (five_prompts ! 0)), (200, RestoreImage (five_prompts ! 1)),
      (400, RestoreImage (five_prompts ! 2)), (600, RestoreImage (five_prompts ! 3)),
      (800, RestoreImage (five_prompts ! 4)), (1500, Summary)]
     = [(totalDelay (length (latestImagesByPrompt (list_images five_stored))), Summary)]
   \<and> (800::nat) + 700 \<le> totalDelay (length (latestImagesByPrompt (list_images five_stored)))"
proof -
  have ne: "[(0, RestoreImage (five_prompts ! 0)), (200, RestoreImage (five_prompts ! 1)),
    (400, RestoreImage (five_prompts ! 2)), (600, RestoreImage (five_prompts ! 3)),
    (800, RestoreImage (five_prompts ! 4)), (1500::nat, Summary)] \<noteq> []" by simp
  note th = summary_after_every_restoration[OF five_timers ne]
  from th[THEN conjunct2, THEN conjunct2]
  have "(800::nat) + 700 \<le> totalDelay (length (latestImagesByPrompt (list_images five_stored)))"
    by simp
  with th[THEN conjunct1] th[THEN conjunct2, THEN conjunct1] show ?thesis by blast
qed

text \<open>
  C4 as stated fails: with five records selected and every button found, the restoration
  delays add up to 2000 ms and the summary fires after 1500 ms.
\<close>

theorem summary_delay_counterexample:
  "sum_list (restore_delays always_found (map snd (latestImagesByPrompt five_prompts))) = 2000
   \<and> totalDelay (length (map snd (latestImagesByPrompt five_prompts))) = 1500"
proof -
  have en: "enumerate 0 five_prompts = zip [0, 1, 2, 3, 4] five_prompts"
    by (simp add: five_prompts_def)
  have "restore_delays always_found five_prompts = [0, 200, 400, 600, 800]"
    unfolding restore_delays_def restore_timers_def en
    by (simp add: always_found_def five_prompts_def)
  moreover have "length five_prompts = 5" by (simp add: five_prompts_def)
  ultimately show ?thesis by (simp add: five_grouped totalDelay_def)
qed

section \<open>Validation of a template\<close>

lemma quoted_positive_trim: "js_trim quoted_positive = quoted_positive"
  unfolding quoted_positive_def by code_simp

lemma quoted_positive_substituted: "substitute_placeholders quoted_positive = quoted_positive_temp"
  unfolding quoted_positive_def quoted_positive_temp_def by code_simp

lemma quoted_positive_temp_rejected: "JSON_parse quoted_positive_temp = Inl (SyntaxError 12)"
  unfolding quoted_positive_temp_def by code_simp

lemma quoted_positive_parses:
  "JSON_parse quoted_positive = Inr (JObj [(str ''text'', JStr (str ''%positive%''))])"
  unfolding quoted_positive_def by code_simp

lemma quoted_positive_clean: "strip_bom (js_trim quoted_positive) = quoted_positive"
  unfolding quoted_positive_def by code_simp

lemma quoted_positive_nonempty: "quoted_positive \<noteq> []"
  unfolding quoted_positive_def by code_simp

text \<open>
  C1. On the template \<open>{ "text": "%positive%" }\<close> the validator puts the quoted stand-in
  between the quotes of the template, parses \<open>{ "text": ""temp_positive_placeholder"" }\<close>
  and reports a format error, whatever the message of the engine shows; the template itself
  is well-formed and its string still holds the token.
\<close>

theorem validateWorkflowJson_quoted_positive:
  "validateWorkflowJson position_in_message quoted_positive
     = Invalid (JsonFormatError (errorContext (position_in_message 12) quoted_positive))
   \<and> JSON_parse quoted_positive = Inr (JObj [(str ''text'', JStr (str ''%positive%''))])"
proof -
  have "validateWorkflowJson position_in_message quoted_positive
     = Invalid (JsonFormatError (errorContext (position_in_message 12) quoted_positive))"
    unfolding validateWorkflowJson_def Let_def quoted_positive_clean quoted_positive_substituted
      quoted_positive_temp_rejected
    by (simp add: quoted_positive_trim quoted_positive_nonempty)
  then show ?thesis using quoted_positive_parses by simp
qed

section \<open>The channel\<close>

text \<open>
  C8. A message that parses and whose \<open>type\<close> is neither \<open>executed\<close> nor
  \<open>execution_error\<close> (the three housekeeping types, any other type, no type at all)
  invokes no callback and leaves the state of the program as it is.
\<close>

theorem onmessage_ignores_other_types:
  assumes "JSON_parse event_data = Inr data"
    and "get_prop (Some data) (str ''type'') \<noteq> Inr (Some (JStr (str ''executed'')))"
    and "get_prop (Some data) (str ''type'') \<noteq> Inr (Some (JStr (str ''execution_error'')))"
  shows "onmessage event_data = []
       \<and> ws_dispatch b now clientId (MessageEvent event_data) st = st"
proof -
  have "onmessage event_data = []"
    using assms by (auto simp add: onmessage_def split: sum.splits)
  then show ?thesis by (simp add: ws_dispatch_def)
qed

lemma progress_message_parses: "JSON_parse progress_message = Inr progress_data"
  unfolding progress_message_def progress_data_def by code_simp

lemma progress_type:
  "get_prop (Some progress_data) (str ''type'') = Inr (Some (JStr (str ''progress'')))"
  unfolding progress_data_def by code_simp

lemma progress_not_executed: "str ''progress'' \<noteq> str ''executed''"
  by code_simp

lemma progress_not_error: "str ''progress'' \<noteq> str ''execution_error''"
  by code_simp

theorem onmessage_ignores_other_types_witness:
  "onmessage progress_message = []
   \<and> ws_dispatch sample_builtins 0 (job_clientId sample_job) (MessageEvent progress_message)
        connected_app = connected_app"
proof -
  have a: "get_prop (Some progress_data) (str ''type'') \<noteq> Inr (Some (JStr (str ''executed'')))"
    using progress_type progress_not_executed by simp
  have b: "get_prop (Some progress_data) (str ''type'')
             \<noteq> Inr (Some (JStr (str ''execution_error'')))"
    using progress_type progress_not_error by simp
  from onmessage_ignores_other_types[OF progress_message_parses a b] show ?thesis .
qed

lemma other_messages_ignored:
  "onmessage monitor_message = []" "onmessage status_message = []"
  "onmessage executing_message = []"
  unfolding monitor_message_def status_message_def executing_message_def by code_simp+

text \<open>
  C10. A payload that \<open>JSON.parse\<close> rejects invokes no callback and leaves the state of
  the program, the registry included, as it is: the channel stays registered and the job
  stays pending.
\<close>

theorem onmessage_swallows_parse_failure:
  assumes "JSON_parse event_data = Inl e"
  shows "onmessage event_data = []
       \<and> ws_dispatch b now clientId (MessageEvent event_data) st = st"
proof -
  have "onmessage event_data = []"
    using assms by (simp add: onmessage_def)
  then show ?thesis by (simp add: ws_dispatch_def)
qed

lemma garbled_message_rejected: "JSON_parse garbled_message = Inl (SyntaxError 52)"
  unfolding garbled_message_def by code_simp

theorem onmessage_swallows_parse_failure_witness:
  "onmessage garbled_message = []
   \<and> ws_dispatch sample_builtins 0 (job_clientId sample_job) (MessageEvent garbled_message)
        connected_app = connected_app"
  using onmessage_swallows_parse_failure[OF garbled_message_rejected] .

text \<open>
  C3, as the code has it. When the socket cannot be created, \<open>onError\<close> is invoked and
  the client id is not entered in the registry. An error event invokes \<open>onError\<close> and
  leaves the registry as it is. A close event takes the client id out of the registry and
  invokes no callback.
\<close>

theorem transport_failures:
  assumes "settings (store st) = Some s"
  shows "(new_WebSocket (wsUrl s clientId) = None \<longrightarrow>
           (\<exists>st'. connectWebSocket new_WebSocket clientId j st = Inr (None, st')
              \<and> calls st' = calls st @ [(clientId, OnError CannotCreateWebSocket)]
              \<and> wsConnections st' = wsConnections st))
       \<and> calls (ws_dispatch b now clientId ErrorEvent st)
           = calls st @ [(clientId, OnError WebSocketConnectionError)]
       \<and> wsConnections (ws_dispatch b now clientId ErrorEvent st) = wsConnections st
       \<and> calls (ws_dispatch b now clientId CloseEvent st) = calls st
       \<and> wsConnections (ws_dispatch b now clientId CloseEvent st)
           = (wsConnections st)(clientId := None)"
  using assms
  by (auto simp add: connectWebSocket_def ws_dispatch_def invoke_def Let_def
      split: option.splits callback.splits)

lemma idle_settings:
  "settings (store idle_app) = Some ((DEFAULT_SETTINGS [])\<lparr>shares_default := False\<rparr>)"
  by (simp add: idle_app_def empty_store_def)

theorem transport_failures_witness:
  "(\<exists>st'. connectWebSocket never_socket (job_clientId sample_job) sample_job idle_app
            = Inr (None, st')
        \<and> calls st' = [(job_clientId sample_job, OnError CannotCreateWebSocket)]
        \<and> wsConnections st' = Map.empty)"
proof -
  have n: "never_socket (wsUrl ((DEFAULT_SETTINGS [])\<lparr>shares_default := False\<rparr>)
             (job_clientId sample_job)) = None"
    by (simp add: never_socket_def)
  from transport_failures[OF idle_settings, of never_socket "job_clientId sample_job"
      sample_job] n
  show ?thesis by (simp add: idle_app_def)
qed

text \<open>
  C3 as stated fails: a close event invokes no callback, and after an error event the
  client id is still in the registry.
\<close>

theorem transport_failures_counterexample:
  "calls (ws_dispatch sample_builtins 0 (job_clientId sample_job) CloseEvent connected_app) = []
   \<and> wsConnections
        (ws_dispatch sample_builtins 0 (job_clientId sample_job) ErrorEvent connected_app)
        (job_clientId sample_job) = Some 1"
  by (simp add: ws_dispatch_def connected_app_def idle_app_def invoke_def Let_def)

section \<open>Filling a template\<close>

lemma set_property_length [simp]: "length (set_property a k v h) = length h"
  by (simp add: set_property_def split: option.splits cell.splits)

lemma set_property_other: "b \<noteq> a \<Longrightarrow> set_property a k v h ! b = h ! b"
  by (simp add: set_property_def split: option.splits cell.splits)

lemma replace_frame:
  "replaceInObject f p r obj h = (res, h')
     \<Longrightarrow> length h \<le> length h' \<and> (\<forall>a<length h. h' ! a = h ! a)"
  "replace_items f p r items h = (res', h')
     \<Longrightarrow> length h \<le> length h' \<and> (\<forall>a<length h. h' ! a = h ! a)"
  "replace_entries f p r newObj es h = (ok, h')
     \<Longrightarrow> length h \<le> length h' \<and> (\<forall>a<length h. a \<noteq> newObj \<longrightarrow> h' ! a = h ! a)"
proof (induction f p r obj h and f p r items h and f p r newObj es h
       arbitrary: res h' and res' h' and ok h'
       rule: replaceInObject_replace_items_replace_entries.induct)
  case (1 p r obj h)
  then show ?case by simp
next
  case (2 f p r obj h)
  show ?case
  proof (cases obj)
    case (HRef a)
    show ?thesis
    proof (cases "cell_at h a")
      case None
      with 2 HRef show ?thesis by simp
    next
      case (Some c)
      show ?thesis
      proof (cases c)
        case (ArrayCell items)
        obtain ris h1 where ri: "replace_items f p r items h = (ris, h1)" by fastforce
        from "2.IH"(1)[OF HRef Some ArrayCell ri]
        have fr: "length h \<le> length h1" "\<forall>a<length h. h1 ! a = h ! a" by auto
        from "2.prems" HRef Some ArrayCell ri
        have "h' = h1 \<or> h' = h1 @ [ArrayCell (the ris)]"
          by (auto split: option.splits)
        with fr show ?thesis by (auto simp add: nth_append)
      next
        case (ObjectCell es)
        obtain ok h1 where re:
          "replace_entries f p r (length h) es (h @ [ObjectCell []]) = (ok, h1)" by fastforce
        from "2.IH"(2)[OF HRef Some ObjectCell re]
        have fr: "length (h @ [ObjectCell []]) \<le> length h1"
          "\<forall>a<length (h @ [ObjectCell []]). a \<noteq> length h \<longrightarrow> h1 ! a = (h @ [ObjectCell []]) ! a"
          by auto
        from "2.prems" HRef Some ObjectCell re have "h' = h1"
          by (auto split: bool.splits)
        with fr show ?thesis by (auto simp add: nth_append)
      qed
    qed
  qed (use 2 in auto)
next
  case (3 f p r h)
  then show ?case by simp
next
  case (4 f p r item items h)
  obtain ri h1 where a: "replaceInObject f p r item h = (ri, h1)" by fastforce
  from "4.IH"(1)[OF a] have f1: "length h \<le> length h1" "\<forall>a<length h. h1 ! a = h ! a" by auto
  show ?case
  proof (cases ri)
    case None
    with "4.prems" a f1 show ?thesis by auto
  next
    case (Some item')
    obtain ris h2 where b: "replace_items f p r items h1 = (ris, h2)" by fastforce
    from "4.IH"(2)[OF a[symmetric] Some b]
    have f2: "length h1 \<le> length h2" "\<forall>a<length h1. h2 ! a = h1 ! a" by auto
    from "4.prems" a b Some have "h' = h2" by (auto split: option.splits)
    with f1 f2 show ?thesis by auto
  qed
next
  case (5 f p r newObj h)
  then show ?case by simp
next
  case (6 f p r newObj key v es h)
  obtain rv h1 where a: "replaceInObject f p r v h = (rv, h1)" by fastforce
  from "6.IH"(1)[OF a] have f1: "length h \<le> length h1" "\<forall>a<length h. h1 ! a = h ! a" by auto
  show ?case
  proof (cases rv)
    case None
    with "6.prems" a f1 show ?thesis by auto
  next
    case (Some v')
    from "6.prems" a Some
    have b: "replace_entries f p r newObj es (set_property newObj key v' h1) = (ok, h')" by simp
    from "6.IH"(2)[OF a[symmetric] Some b]
    have f2: "length (set_property newObj key v' h1) \<le> length h'"
      "\<forall>a<length (set_property newObj key v' h1). a \<noteq> newObj
         \<longrightarrow> h' ! a = set_property newObj key v' h1 ! a" by auto
    with f1 show ?thesis by (auto simp add: set_property_other)
  qed
qed

lemma read_stable:
  "read_from n d h v = Some t \<Longrightarrow> m \<le> n \<Longrightarrow> length h \<le> length h'
     \<Longrightarrow> (\<forall>a. n \<le> a \<and> a < length h \<longrightarrow> h' ! a = h ! a)
     \<Longrightarrow> read_from m d h' v = Some t"
  "read_items n d h vs = Some ts \<Longrightarrow> m \<le> n \<Longrightarrow> length h \<le> length h'
     \<Longrightarrow> (\<forall>a. n \<le> a \<and> a < length h \<longrightarrow> h' ! a = h ! a)
     \<Longrightarrow> read_items m d h' vs = Some ts"
  "read_entries n d h es = Some tes \<Longrightarrow> m \<le> n \<Longrightarrow> length h \<le> length h'
     \<Longrightarrow> (\<forall>a. n \<le> a \<and> a < length h \<longrightarrow> h' ! a = h ! a)
     \<Longrightarrow> read_entries m d h' es = Some tes"
proof (induction n d h v and n d h vs and n d h es arbitrary: t and ts and tes
       rule: read_from_read_items_read_entries.induct)
  case (1 n h v)
  then show ?case by simp
next
  case (2 n d h v)
  show ?case
  proof (cases v)
    case (HRef a)
    with "2.prems" have a: "\<not> a < n" "a < length h"
      by (auto simp add: cell_at_def split: if_splits)
    with "2.prems" have c: "cell_at h' a = cell_at h a" "\<not> a < m"
      by (auto simp add: cell_at_def)
    from a have ca0: "cell_at h a = Some (h ! a)" by (simp add: cell_at_def)
    show ?thesis
    proof (cases "h ! a")
      case (ArrayCell items)
      with a have ca: "cell_at h a = Some (ArrayCell items)" by (simp add: cell_at_def)
      from "2.prems"(1) HRef a ca obtain ts where
        ts: "read_items n d h items = Some ts" "t = JArr ts"
        by (auto split: option.splits)
      from "2.IH"(1)[OF HRef a(1) ca0 ArrayCell ts(1) "2.prems"(2,3,4)]
      show ?thesis using HRef c ca ts by simp
    next
      case (ObjectCell es)
      with a have ca: "cell_at h a = Some (ObjectCell es)" by (simp add: cell_at_def)
      from "2.prems"(1) HRef a ca obtain ts where
        ts: "read_entries n d h es = Some ts" "t = JObj ts"
        by (auto split: option.splits)
      from "2.IH"(2)[OF HRef a(1) ca0 ObjectCell ts(1) "2.prems"(2,3,4)]
      show ?thesis using HRef c ca ts by simp
    qed
  qed (use "2.prems" in auto)
next
  case (3 n d h)
  then show ?case by simp
next
  case (4 n d h v vs)
  from "4.prems"(1) obtain t1 ts1 where
    r: "read_from n d h v = Some t1" "read_items n d h vs = Some ts1" "ts = t1 # ts1"
    by (auto split: option.splits)
  from "4.IH"(1)[OF r(1) "4.prems"(2,3,4)] "4.IH"(2)[OF r(1) r(2) "4.prems"(2,3,4)] r(3)
  show ?case by simp
next
  case (5 n d h)
  then show ?case by simp
next
  case (6 n d h k v es)
  from "6.prems"(1) obtain t1 ts1 where
    r: "read_from n d h v = Some t1" "read_entries n d h es = Some ts1" "tes = (k, t1) # ts1"
    by (auto split: option.splits)
  from "6.IH"(1)[OF r(1) "6.prems"(2,3,4)] "6.IH"(2)[OF r(1) r(2) "6.prems"(2,3,4)] r(3)
  show ?case by simp
qed

lemma read_entries_all2:
  "read_entries n d h es = Some tes \<longleftrightarrow> list_all2 (reads n d h) es tes"
proof (induction es arbitrary: tes)
  case Nil
  then show ?case by auto
next
  case (Cons e es)
  obtain k v where e: "e = (k, v)" by (cases e)
  show ?case
  proof (cases tes)
    case Nil
    then show ?thesis by (auto simp add: e split: option.splits)
  next
    case (Cons y ys)
    with Cons.IH[of ys] show ?thesis
      by (cases y) (auto simp add: e reads_def split: option.splits)
  qed
qed

lemma all2_keys:
  "list_all2 (reads n d h) es tes \<Longrightarrow> map fst es = map fst tes"
  by (induction rule: list_all2_induct) (auto simp add: reads_def)

lemma insert_index_all2:
  "list_all2 (reads n d h) es tes \<Longrightarrow> reads n d h (k, v) (k, t)
     \<Longrightarrow> list_all2 (reads n d h) (insert_index i k v es) (insert_index i k t tes)"
proof (induction rule: list_all2_induct)
  case Nil
  then show ?case by simp
next
  case (Cons x xs y ys)
  obtain k1 v1 where x: "x = (k1, v1)" by (cases x)
  obtain k2 t2 where y: "y = (k2, t2)" by (cases y)
  from Cons.hyps(1) x y have k: "k2 = k1" by (simp add: reads_def)
  from Cons show ?case
    by (auto simp add: x y k split: option.splits)
qed

lemma obj_define_all2:
  assumes "list_all2 (reads n d h) es tes" and "reads n d h (k, v) (k, t)"
  shows "list_all2 (reads n d h) (obj_define k v es) (obj_define k t tes)"
proof -
  have keys: "map fst es = map fst tes" using assms(1) by (rule all2_keys)
  have upd: "list_all2 (reads n d h)
               (map (\<lambda>(k', v'). if k' = k then (k', v) else (k', v')) es)
               (map (\<lambda>(k', v'). if k' = k then (k', t) else (k', v')) tes)"
    using assms(1)
  proof (induction rule: list_all2_induct)
    case Nil
    then show ?case by simp
  next
    case (Cons x xs y ys)
    with assms(2) show ?case
      by (cases x; cases y) (auto simp add: reads_def)
  qed
  have app: "list_all2 (reads n d h) (es @ [(k, v)]) (tes @ [(k, t)])"
    using assms by (simp add: list_all2_appendI)
  show ?thesis
    unfolding obj_define_def keys[symmetric, THEN arg_cong[where f = set], symmetric]
    using upd app insert_index_all2[OF assms] keys
    by (auto split: option.splits simp add: keys[symmetric])
qed

lemma obj_set_reads:
  assumes "read_entries n d h acc = Some tacc" and "read_from n d h v = Some t"
  shows "read_entries n d h (obj_set k v acc) = Some (obj_set k t tacc)"
proof -
  from assms(1) have a: "list_all2 (reads n d h) acc tacc" by (simp add: read_entries_all2)
  from assms(2) have r: "reads n d h (k, v) (k, t)" by (simp add: reads_def)
  show ?thesis
    using a obj_define_all2[OF a r] by (simp add: obj_set_def read_entries_all2)
qed

lemma cell_at_append [simp]: "cell_at (h @ [c]) (length h) = Some c"
  by (simp add: cell_at_def)

lemma replace_reads:
  "read_from 0 d h obj = Some t \<Longrightarrow> d \<le> f
     \<Longrightarrow> \<exists>v' h'. replaceInObject f p r obj h = (Some v', h')
           \<and> read_from (length h) d h' v' = Some (fill p r t)"
  "read_items 0 d h items = Some ts \<Longrightarrow> d \<le> f
     \<Longrightarrow> \<exists>vs' h'. replace_items f p r items h = (Some vs', h')
           \<and> read_items (length h) d h' vs' = Some (fill_items p r ts)"
  "read_entries 0 d h0 es = Some tes \<Longrightarrow> d \<le> f \<Longrightarrow> length h0 = newObj
     \<Longrightarrow> newObj < length h \<Longrightarrow> take newObj h = h0 \<Longrightarrow> h ! newObj = ObjectCell acc
     \<Longrightarrow> read_entries (Suc newObj) d h acc = Some tacc
     \<Longrightarrow> \<exists>h' acc'. replace_entries f p r newObj es h = (True, h')
           \<and> h' ! newObj = ObjectCell acc'
           \<and> read_entries (Suc newObj) d h' acc' = Some (fill_entries p r tacc tes)"
proof (induction f p r obj h and f p r items h and f p r newObj es h
       arbitrary: d t and d ts and d tes h0 acc tacc
       rule: replaceInObject_replace_items_replace_entries.induct)
  case (1 p r obj h)
  then show ?case by simp
next
  case (2 f p r obj h)
  from "2.prems"(1) obtain d' where d: "d = Suc d'" by (cases d) auto
  with "2.prems"(2) have df: "d' \<le> f" by simp
  show ?case
  proof (cases obj)
    case (HRef a)
    with "2.prems"(1) d have a: "a < length h"
      by (auto simp add: cell_at_def split: if_splits)
    then have ca0: "cell_at h a = Some (h ! a)" by (simp add: cell_at_def)
    show ?thesis
    proof (cases "h ! a")
      case (ArrayCell items)
      from "2.prems"(1) d HRef ca0 ArrayCell obtain ts where
        ts: "read_items 0 d' h items = Some ts" "t = JArr ts"
        by (auto split: option.splits)
      from "2.IH"(1)[OF HRef ca0 ArrayCell ts(1) df] obtain vs' h1 where
        r: "replace_items f p r items h = (Some vs', h1)"
           "read_items (length h) d' h1 vs' = Some (fill_items p r ts)" by blast
      from replace_frame(2)[OF r(1)] have fr: "length h \<le> length h1" by simp
      have "read_items (length h) d' (h1 @ [ArrayCell vs']) vs' = Some (fill_items p r ts)"
        by (rule read_stable(2)[OF r(2)]) (auto simp add: nth_append)
      with fr show ?thesis
        using HRef ca0 ArrayCell r(1) ts(2) d by simp
    next
      case (ObjectCell es)
      from "2.prems"(1) d HRef ca0 ObjectCell obtain tes where
        tes: "read_entries 0 d' h es = Some tes" "t = JObj tes"
        by (auto split: option.splits)
      have "\<exists>h' acc'. replace_entries f p r (length h) es (h @ [ObjectCell []]) = (True, h')
              \<and> h' ! length h = ObjectCell acc'
              \<and> read_entries (Suc (length h)) d' h' acc' = Some (fill_entries p r [] tes)"
      proof (rule "2.IH"(2)[OF HRef ca0 ObjectCell tes(1) df refl])
        show "length h < length (h @ [ObjectCell []])" by simp
        show "take (length h) (h @ [ObjectCell []]) = h" by simp
        show "(h @ [ObjectCell []]) ! length h = ObjectCell []" by simp
        show "read_entries (Suc (length h)) d' (h @ [ObjectCell []]) [] = Some []" by simp
      qed
      then obtain h1 acc' where
        r: "replace_entries f p r (length h) es (h @ [ObjectCell []]) = (True, h1)"
           "h1 ! length h = ObjectCell acc'"
           "read_entries (Suc (length h)) d' h1 acc' = Some (fill_entries p r [] tes)" by blast
      from replace_frame(3)[OF r(1)] have fr: "length h < length h1" by simp
      have "read_entries (length h) d' h1 acc' = Some (fill_entries p r [] tes)"
        by (rule read_stable(3)[OF r(3)]) auto
      with fr r(2) show ?thesis
        using HRef ca0 ObjectCell r(1) tes(2) d by (simp add: cell_at_def)
    qed
  qed (use "2.prems" d in auto)
next
  case (3 f p r h)
  then show ?case by simp
next
  case (4 f p r item items h)
  from "4.prems"(1) obtain t1 ts1 where
    rd: "read_from 0 d h item = Some t1" "read_items 0 d h items = Some ts1" "ts = t1 # ts1"
    by (auto split: option.splits)
  from "4.IH"(1)[OF rd(1) "4.prems"(2)] obtain v1 h1 where
    r1: "replaceInObject f p r item h = (Some v1, h1)"
        "read_from (length h) d h1 v1 = Some (fill p r t1)" by blast
  from replace_frame(1)[OF r1(1)] have f1: "length h \<le> length h1" "\<forall>a<length h. h1 ! a = h ! a"
    by auto
  have rd1: "read_items 0 d h1 items = Some ts1"
    by (rule read_stable(2)[OF rd(2)]) (use f1 in auto)
  from "4.IH"(2)[OF r1(1)[symmetric] refl rd1 "4.prems"(2)] obtain vs h2 where
    r2: "replace_items f p r items h1 = (Some vs, h2)"
        "read_items (length h1) d h2 vs = Some (fill_items p r ts1)" by blast
  from replace_frame(2)[OF r2(1)] have f2: "length h1 \<le> length h2" "\<forall>a<length h1. h2 ! a = h1 ! a"
    by auto
  have a: "read_from (length h) d h2 v1 = Some (fill p r t1)"
    by (rule read_stable(1)[OF r1(2)]) (use f1 f2 in auto)
  have b: "read_items (length h) d h2 vs = Some (fill_items p r ts1)"
    by (rule read_stable(2)[OF r2(2)]) (use f1 in auto)
  from r1(1) r2(1) a b rd(3) show ?case by simp
next
  case (5 f p r newObj h)
  then show ?case by simp
next
  case (6 f p r newObj key v es h)
  from "6.prems"(1) obtain t1 tes1 where
    rd: "read_from 0 d h0 v = Some t1" "read_entries 0 d h0 es = Some tes1"
        "tes = (key, t1) # tes1"
    by (auto split: option.splits)
  have pre: "length h0 \<le> length h" "\<forall>a<length h0. h ! a = h0 ! a"
  proof -
    show "length h0 \<le> length h" using "6.prems"(3,4) by simp
    show "\<forall>a<length h0. h ! a = h0 ! a"
    proof (intro allI impI)
      fix a assume "a < length h0"
      then have "take newObj h ! a = h ! a" using "6.prems"(3) by simp
      then show "h ! a = h0 ! a" using "6.prems"(5) by simp
    qed
  qed
  have rdh: "read_from 0 d h v = Some t1"
    by (rule read_stable(1)[OF rd(1)]) (use pre in auto)
  from "6.IH"(1)[OF rdh "6.prems"(2)] obtain v' h1 where
    r1: "replaceInObject f p r v h = (Some v', h1)"
        "read_from (length h) d h1 v' = Some (fill p r t1)" by blast
  from replace_frame(1)[OF r1(1)] have f1: "length h \<le> length h1" "\<forall>a<length h. h1 ! a = h ! a"
    by auto
  let ?h2 = "set_property newObj key v' h1"
  from f1 "6.prems"(4,6) have cell: "cell_at h1 newObj = Some (ObjectCell acc)"
    by (simp add: cell_at_def)
  then have h2: "?h2 = h1[newObj := ObjectCell (obj_set key v' acc)]"
    by (simp add: set_property_def)
  have n2: "newObj < length ?h2" using f1 "6.prems"(4) by simp
  have t2: "take newObj ?h2 = h0"
    using f1 "6.prems"(3,4,5) by (auto simp add: h2 list_eq_iff_nth_eq)
  have c2: "?h2 ! newObj = ObjectCell (obj_set key v' acc)"
    using f1 "6.prems"(4) by (simp add: h2)
  have acc1: "read_entries (Suc newObj) d h1 acc = Some tacc"
    by (rule read_stable(3)[OF "6.prems"(7)]) (use f1 in auto)
  have acc2: "read_entries (Suc newObj) d ?h2 acc = Some tacc"
    by (rule read_stable(3)[OF acc1]) (auto simp add: h2)
  have v1: "read_from (Suc newObj) d h1 v' = Some (fill p r t1)"
    by (rule read_stable(1)[OF r1(2)]) (use "6.prems"(4) in auto)
  have v2: "read_from (Suc newObj) d ?h2 v' = Some (fill p r t1)"
    by (rule read_stable(1)[OF v1]) (auto simp add: h2)
  have acc': "read_entries (Suc newObj) d ?h2 (obj_set key v' acc)
                = Some (obj_set key (fill p r t1) tacc)"
    by (rule obj_set_reads[OF acc2 v2])
  from "6.IH"(2)[OF r1(1)[symmetric] refl rd(2) "6.prems"(2,3) n2 t2 c2 acc']
  show ?case using r1(1) rd(3) by simp
qed

lemma frame_take:
  assumes "length h \<le> length h'" and "\<forall>a<length h. h' ! a = h ! a"
  shows "take (length h) h' = h"
  using assms by (auto simp add: list_eq_iff_nth_eq)

lemma replaceInObject_frame:
  "take (length h) (snd (replaceInObject f p r obj h)) = h"
proof -
  obtain res h' where e: "replaceInObject f p r obj h = (res, h')" by fastforce
  from replace_frame(1)[OF e] show ?thesis by (simp add: e frame_take)
qed

lemma replaceInObject_once:
  assumes "read_json d h obj = Some t" and "d \<le> f"
  shows "\<exists>v' h'. replaceInObject f p r obj h = (Some v', h')
           \<and> read_json d h' obj = Some t
           \<and> read_from (length h) d h' v' = Some (fill p r t)"
proof -
  from assms(1) have rd: "read_from 0 d h obj = Some t" by (simp add: read_json_def)
  from replace_reads(1)[OF rd assms(2)] obtain v' h' where
    r: "replaceInObject f p r obj h = (Some v', h')"
       "read_from (length h) d h' v' = Some (fill p r t)" by blast
  from replace_frame(1)[OF r(1)] have fr: "length h \<le> length h'" "\<forall>a<length h. h' ! a = h ! a"
    by auto
  have "read_from 0 d h' obj = Some t"
    by (rule read_stable(1)[OF rd]) (use fr in auto)
  with r show ?thesis by (simp add: read_json_def)
qed

text \<open>
  C9. A call of \<open>replaceInObject\<close> changes no cell that was in the heap before it,
  whatever the value, the heap and the depth left, also when it ends in \<open>RangeError\<close>.
  For a document stored in the heap and enough depth, the call returns; the document read
  from the input is the same afterwards; the result is the filled document and is made of
  cells of the call alone; and a second call on the same input returns the same filled
  document again, in cells of its own.
\<close>

theorem replaceInObject_leaves_input:
  "take (length h) (snd (replaceInObject f' p r obj h)) = h
   \<and> (read_json d h obj = Some t \<and> d \<le> f \<longrightarrow>
        (\<exists>v' h'. replaceInObject f p r obj h = (Some v', h')
           \<and> read_json d h' obj = Some t
           \<and> read_from (length h) d h' v' = Some (fill p r t)
           \<and> (\<exists>v'' h''. replaceInObject f p r obj h' = (Some v'', h'')
                 \<and> read_json d h'' obj = Some t
                 \<and> read_from (length h') d h'' v'' = Some (fill p r t))))"
proof (intro conjI impI)
  show "take (length h) (snd (replaceInObject f' p r obj h)) = h"
    by (rule replaceInObject_frame)
next
  assume a: "read_json d h obj = Some t \<and> d \<le> f"
  then have rd: "read_json d h obj = Some t" and df: "d \<le> f" by auto
  from replaceInObject_once[OF rd df] obtain v' h' where
    r1: "replaceInObject f p r obj h = (Some v', h')" "read_json d h' obj = Some t"
        "read_from (length h) d h' v' = Some (fill p r t)" by blast
  from replaceInObject_once[OF r1(2) df] obtain v'' h'' where
    r2: "replaceInObject f p r obj h' = (Some v'', h'')" "read_json d h'' obj = Some t"
        "read_from (length h') d h'' v'' = Some (fill p r t)" by blast
  from r1 r2 show "\<exists>v' h'. replaceInObject f p r obj h = (Some v', h')
           \<and> read_json d h' obj = Some t
           \<and> read_from (length h) d h' v' = Some (fill p r t)
           \<and> (\<exists>v'' h''. replaceInObject f p r obj h' = (Some v'', h'')
                 \<and> read_json d h'' obj = Some t
                 \<and> read_from (length h') d h'' v'' = Some (fill p r t))"
    by blast
qed

lemma sample_read: "read_json 5 sample_heap sample_root = Some sample_document"
  unfolding sample_heap_def sample_root_def sample_document_def two_tokens_def read_json_def
  by code_simp

lemma sample_fill: "fill (str ''%p%'') (str ''X'') sample_document = sample_filled"
  unfolding sample_document_def sample_filled_def two_tokens_def by code_simp

theorem replaceInObject_leaves_input_witness:
  "\<exists>v' h'. replaceInObject 5 (str ''%p%'') (str ''X'') sample_root sample_heap = (Some v', h')
     \<and> read_json 5 h' sample_root = Some sample_document
     \<and> read_from (length sample_heap) 5 h' v' = Some sample_filled
     \<and> (\<exists>v'' h''. replaceInObject 5 (str ''%p%'') (str ''X'') sample_root h' = (Some v'', h'')
           \<and> read_json 5 h'' sample_root = Some sample_document
           \<and> read_from (length h') 5 h'' v'' = Some sample_filled)"
proof -
  have h: "read_json 5 sample_heap sample_root = Some sample_document \<and> (5::nat) \<le> 5"
    using sample_read by simp
  from replaceInObject_leaves_input[of sample_heap 5 "str ''%p%''" "str ''X''" sample_root
      5 sample_document 5] h
  show ?thesis unfolding sample_fill by blast
qed

lemma fill_drops_proto:
  "fill (str ''%p%'') (str ''X'') proto_document = JObj [(str ''a'', JNum 2 0)]"
  unfolding proto_document_def by code_simp

lemma get_substitution_plain:
  "36 \<notin> set t \<Longrightarrow> get_substitution matched preceding following t = t"
  by (induction matched preceding following t rule: get_substitution.induct) auto

text \<open>
  C6. The string \<open>%p% and %p%\<close> filled with \<open>X\<close> is \<open>X and X\<close>. The replacement value
  is read as a replacement pattern, though: filled with \<open>$&\<close> both tokens stay in the
  string, and a prompt with \<open>$$$\<close> arrives with \<open>$$\<close>.
\<close>

theorem replaceInObject_dollar_patterns:
  "replaceInObject 1 (str ''%p%'') (str ''X'') (HStr two_tokens) [] = (Some (HStr (str ''X and X'')), [])
   \<and> replaceInObject 1 (str ''%p%'') dollar_ampersand (HStr two_tokens) [] = (Some (HStr two_tokens), [])
   \<and> replaceInObject 1 (str ''%p%'') dollars_prompt (HStr (str ''%p%'')) []
       = (Some (HStr (str ''cash $$ rain'')), [])"
  unfolding two_tokens_def dollar_ampersand_def dollars_prompt_def by code_simp


section \<open>Documents in the heap\<close>

lemma read_deeper:
  "read_from n d h v = Some t \<Longrightarrow> d \<le> d' \<Longrightarrow> read_from n d' h v = Some t"
  "read_items n d h vs = Some ts \<Longrightarrow> d \<le> d' \<Longrightarrow> read_items n d' h vs = Some ts"
  "read_entries n d h es = Some tes \<Longrightarrow> d \<le> d' \<Longrightarrow> read_entries n d' h es = Some tes"
proof (induction n d h v and n d h vs and n d h es arbitrary: t d' and ts d' and tes d'
       rule: read_from_read_items_read_entries.induct)
  case (1 n h v)
  then show ?case by simp
next
  case (2 n d h v)
  from "2.prems"(2) obtain e where e: "d' = Suc e" "d \<le> e" by (cases d') auto
  show ?case
  proof (cases v)
    case (HRef a)
    with "2.prems"(1) have a: "\<not> a < n" "a < length h"
      by (auto simp add: cell_at_def split: if_splits)
    then have ca0: "cell_at h a = Some (h ! a)" by (simp add: cell_at_def)
    show ?thesis
    proof (cases "h ! a")
      case (ArrayCell items)
      from "2.prems"(1) HRef a ca0 ArrayCell obtain ts where
        ts: "read_items n d h items = Some ts" "t = JArr ts"
        by (auto split: option.splits)
      from "2.IH"(1)[OF HRef a(1) ca0 ArrayCell ts(1) e(2)]
      show ?thesis using HRef a ca0 ArrayCell ts e by simp
    next
      case (ObjectCell es)
      from "2.prems"(1) HRef a ca0 ObjectCell obtain ts where
        ts: "read_entries n d h es = Some ts" "t = JObj ts"
        by (auto split: option.splits)
      from "2.IH"(2)[OF HRef a(1) ca0 ObjectCell ts(1) e(2)]
      show ?thesis using HRef a ca0 ObjectCell ts e by simp
    qed
  qed (use "2.prems" e in auto)
next
  case (3 n d h)
  then show ?case by simp
next
  case (4 n d h v vs)
  from "4.prems"(1) obtain t1 ts1 where
    r: "read_from n d h v = Some t1" "read_items n d h vs = Some ts1" "ts = t1 # ts1"
    by (auto split: option.splits)
  from "4.IH"(1)[OF r(1) "4.prems"(2)] "4.IH"(2)[OF r(1) r(2) "4.prems"(2)] r(3)
  show ?case by simp
next
  case (5 n d h)
  then show ?case by simp
next
  case (6 n d h k v es)
  from "6.prems"(1) obtain t1 ts1 where
    r: "read_from n d h v = Some t1" "read_entries n d h es = Some ts1" "tes = (k, t1) # ts1"
    by (auto split: option.splits)
  from "6.IH"(1)[OF r(1) "6.prems"(2)] "6.IH"(2)[OF r(1) r(2) "6.prems"(2)] r(3)
  show ?case by simp
qed

text \<open>
  The cells made for a document are new ones, and the value made reads as the document,
  from those cells alone.
\<close>

lemma alloc_reads:
  "alloc_json t h = (v, h') \<Longrightarrow>
     length h \<le> length h' \<and> take (length h) h' = h
     \<and> read_from (length h) (json_depth t) h' v = Some t"
  "alloc_items ts h = (vs, h') \<Longrightarrow>
     length h \<le> length h' \<and> take (length h) h' = h
     \<and> read_items (length h) (depth_items ts) h' vs = Some ts"
  "alloc_entries tes h = (es, h') \<Longrightarrow>
     length h \<le> length h' \<and> take (length h) h' = h
     \<and> read_entries (length h) (depth_entries tes) h' es = Some tes"
proof (induction t h and ts h and tes h arbitrary: v h' and vs h' and es h'
       rule: alloc_json_alloc_items_alloc_entries.induct)
  case (5 ts h)
  obtain vs h1 where a: "alloc_items ts h = (vs, h1)" by fastforce
  from "5.IH"[OF a] have i: "length h \<le> length h1" "take (length h) h1 = h"
    "read_items (length h) (depth_items ts) h1 vs = Some ts" by auto
  from "5.prems" a have r: "v = HRef (length h1)" "h' = h1 @ [ArrayCell vs]" by auto
  have "read_items (length h) (depth_items ts) (h1 @ [ArrayCell vs]) vs = Some ts"
    by (rule read_stable(2)[OF i(3)]) (auto simp add: nth_append)
  with i r show ?case by simp
next
  case (6 tes h)
  obtain es h1 where a: "alloc_entries tes h = (es, h1)" by fastforce
  from "6.IH"[OF a] have i: "length h \<le> length h1" "take (length h) h1 = h"
    "read_entries (length h) (depth_entries tes) h1 es = Some tes" by auto
  from "6.prems" a have r: "v = HRef (length h1)" "h' = h1 @ [ObjectCell es]" by auto
  have "read_entries (length h) (depth_entries tes) (h1 @ [ObjectCell es]) es = Some tes"
    by (rule read_stable(3)[OF i(3)]) (auto simp add: nth_append)
  with i r show ?case by simp
next
  case (8 t ts h)
  obtain v1 h1 where a: "alloc_json t h = (v1, h1)" by fastforce
  obtain vs1 h2 where b: "alloc_items ts h1 = (vs1, h2)" by fastforce
  from "8.IH"(1)[OF a] have i1: "length h \<le> length h1" "take (length h) h1 = h"
    "read_from (length h) (json_depth t) h1 v1 = Some t" by auto
  from "8.IH"(2)[OF a[symmetric] b] have i2: "length h1 \<le> length h2" "take (length h1) h2 = h1"
    "read_items (length h1) (depth_items ts) h2 vs1 = Some ts" by auto
  from i2(2) have eq: "\<forall>a<length h1. h2 ! a = h1 ! a"
    by (metis nth_take)
  from "8.prems" a b have r: "vs = v1 # vs1" "h' = h2" by auto
  have t1: "take (length h) h2 = h"
    using i1(1,2) i2(1) eq by (auto simp add: list_eq_iff_nth_eq)
  have "read_from (length h) (json_depth t) h2 v1 = Some t"
    by (rule read_stable(1)[OF i1(3)]) (use i2(1) eq in auto)
  then have a1: "read_from (length h) (max (json_depth t) (depth_items ts)) h2 v1 = Some t"
    by (rule read_deeper(1)) simp
  have "read_items (length h) (depth_items ts) h2 vs1 = Some ts"
    by (rule read_stable(2)[OF i2(3)]) (use i1(1) in auto)
  then have a2: "read_items (length h) (max (json_depth t) (depth_items ts)) h2 vs1 = Some ts"
    by (rule read_deeper(2)) simp
  from a1 a2 r t1 i1(1) i2(1) show ?case by simp
next
  case (10 k t tes h)
  obtain v1 h1 where a: "alloc_json t h = (v1, h1)" by fastforce
  obtain es1 h2 where b: "alloc_entries tes h1 = (es1, h2)" by fastforce
  from "10.IH"(1)[OF a] have i1: "length h \<le> length h1" "take (length h) h1 = h"
    "read_from (length h) (json_depth t) h1 v1 = Some t" by auto
  from "10.IH"(2)[OF a[symmetric] b] have i2: "length h1 \<le> length h2" "take (length h1) h2 = h1"
    "read_entries (length h1) (depth_entries tes) h2 es1 = Some tes" by auto
  from i2(2) have eq: "\<forall>a<length h1. h2 ! a = h1 ! a"
    by (metis nth_take)
  from "10.prems" a b have r: "es = (k, v1) # es1" "h' = h2" by auto
  have t1: "take (length h) h2 = h"
    using i1(1,2) i2(1) eq by (auto simp add: list_eq_iff_nth_eq)
  have "read_from (length h) (json_depth t) h2 v1 = Some t"
    by (rule read_stable(1)[OF i1(3)]) (use i2(1) eq in auto)
  then have a1: "read_from (length h) (max (json_depth t) (depth_entries tes)) h2 v1 = Some t"
    by (rule read_deeper(1)) simp
  have "read_entries (length h) (depth_entries tes) h2 es1 = Some tes"
    by (rule read_stable(3)[OF i2(3)]) (use i1(1) in auto)
  then have a2: "read_entries (length h) (max (json_depth t) (depth_entries tes)) h2 es1 = Some tes"
    by (rule read_deeper(3)) simp
  from a1 a2 r t1 i1(1) i2(1) show ?case by simp
qed auto

lemma alloc_length:
  "alloc_json t h = (v, h') \<Longrightarrow> length h + json_depth t \<le> Suc (length h')"
  "alloc_items ts h = (vs, h') \<Longrightarrow> length h + depth_items ts \<le> Suc (length h')"
  "alloc_entries tes h = (es, h') \<Longrightarrow> length h + depth_entries tes \<le> Suc (length h')"
proof (induction t h and ts h and tes h arbitrary: v h' and vs h' and es h'
       rule: alloc_json_alloc_items_alloc_entries.induct)
  case (5 ts h)
  obtain vs h1 where a: "alloc_items ts h = (vs, h1)" by fastforce
  from "5.IH"[OF a] "5.prems" a show ?case by auto
next
  case (6 tes h)
  obtain es h1 where a: "alloc_entries tes h = (es, h1)" by fastforce
  from "6.IH"[OF a] "6.prems" a show ?case by auto
next
  case (8 t ts h)
  obtain v1 h1 where a: "alloc_json t h = (v1, h1)" by fastforce
  obtain vs1 h2 where b: "alloc_items ts h1 = (vs1, h2)" by fastforce
  from alloc_reads(1)[OF a] alloc_reads(2)[OF b]
  have l: "length h \<le> length h1" "length h1 \<le> length h2" by auto
  from "8.IH"(1)[OF a] "8.IH"(2)[OF a[symmetric] b] "8.prems" a b l show ?case by auto
next
  case (10 k t tes h)
  obtain v1 h1 where a: "alloc_json t h = (v1, h1)" by fastforce
  obtain es1 h2 where b: "alloc_entries tes h1 = (es1, h2)" by fastforce
  from alloc_reads(1)[OF a] alloc_reads(3)[OF b]
  have l: "length h \<le> length h1" "length h1 \<le> length h2" by auto
  from "10.IH"(1)[OF a] "10.IH"(2)[OF a[symmetric] b] "10.prems" a b l show ?case by auto
qed auto

lemma JSON_parse_empty: "JSON_parse [] = Inl (SyntaxError 0)"
  by code_simp

text \<open>
  The first half of \<open>generateImage\<close> on a stored text that parses to an object or an
  array, with a call stack as deep as the document: the workflow submitted is the parsed
  document with the placeholder filled, and then \<open>%seed%\<close>.
\<close>

lemma prepare_workflow_fills:
  assumes p: "JSON_parse (strip_bom (js_trim (workflow_json s))) = Inr parsed"
    and o: "case parsed of JObj es \<Rightarrow> True | JArr xs \<Rightarrow> True | _ \<Rightarrow> False"
    and d: "json_depth parsed \<le> stack"
  shows "prepare_workflow stack s finalPrompt randomSeed
           = Inr (fill (str ''%seed%'') (decimal randomSeed)
                    (fill (placeholder_of s) finalPrompt parsed))"
proof -
  let ?d = "json_depth parsed"
  from p have ne: "strip_bom (js_trim (workflow_json s)) \<noteq> []"
    using JSON_parse_empty by auto
  obtain w0 h0 where a: "alloc_json parsed [] = (w0, h0)" by fastforce
  from alloc_reads(1)[OF a] have r0: "read_from 0 ?d h0 w0 = Some parsed" by simp
  from alloc_length(1)[OF a] have l0: "?d \<le> Suc (length h0)" by simp
  from replace_reads(1)[OF r0 d] obtain w1 h1 where
    r1: "replaceInObject stack (placeholder_of s) finalPrompt w0 h0 = (Some w1, h1)"
        "read_from (length h0) ?d h1 w1 = Some (fill (placeholder_of s) finalPrompt parsed)"
    by blast
  from replace_frame(1)[OF r1(1)] have f1: "length h0 \<le> length h1" by simp
  have r1': "read_from 0 ?d h1 w1 = Some (fill (placeholder_of s) finalPrompt parsed)"
    by (rule read_stable(1)[OF r1(2)]) auto
  from replace_reads(1)[OF r1' d] obtain w2 h2 where
    r2: "replaceInObject stack (str ''%seed%'') (decimal randomSeed) w1 h1 = (Some w2, h2)"
        "read_from (length h1) ?d h2 w2
           = Some (fill (str ''%seed%'') (decimal randomSeed)
                     (fill (placeholder_of s) finalPrompt parsed))"
    by blast
  from replace_frame(1)[OF r2(1)] have f2: "length h1 \<le> length h2" by simp
  have "read_from 0 ?d h2 w2
           = Some (fill (str ''%seed%'') (decimal randomSeed)
                     (fill (placeholder_of s) finalPrompt parsed))"
    by (rule read_stable(1)[OF r2(2)]) auto
  then have "read_json (Suc (length h2)) h2 w2
           = Some (fill (str ''%seed%'') (decimal randomSeed)
                     (fill (placeholder_of s) finalPrompt parsed))"
    unfolding read_json_def by (rule read_deeper(1)) (use l0 f1 f2 in simp)
  with p o ne a r1(1) r2(1) show ?thesis
    by (simp add: prepare_workflow_def Let_def)
qed


section \<open>The record of a job\<close>

lemma list_images_effects [simp]: "list_images (s\<lparr>effects := e\<rparr>) = list_images s"
  by (cases "settings s") (simp_all add: list_images_def)

lemma image_saved_records:
  assumes "d \<in> set (list_images (image_saved now j (job_imageInfo j s url fn sf ty) st))"
  shows "d \<in> set (list_images st) \<or> (img_id d = job_buttonId j \<and> img_buttonId d = job_buttonId j)"
proof -
  from assms have "d \<in> set (take 100 (make_imageData now (job_imageInfo j s url fn sf ty)
                                        # list_images st))"
    by (simp add: image_saved_def Let_def list_images_save)
  then have "d \<in> set (make_imageData now (job_imageInfo j s url fn sf ty) # list_images st)"
    by (rule in_set_takeD)
  then show ?thesis by (auto simp add: make_imageData_def job_imageInfo_def)
qed

lemma onImageGenerated_cases:
  "onImageGenerated b now j images st = retrieval_failed j st
   \<or> (\<exists>url fn sf ty. onImageGenerated b now j images st
          = image_saved now j (job_imageInfo j (settings st) url fn sf ty) st)"
  unfolding onImageGenerated_def
  by (simp split: sum.splits option.splits prod.splits) blast

lemma onImageGenerated_records:
  assumes "d \<in> set (list_images (onImageGenerated b now j images s))"
  shows "d \<in> set (list_images s) \<or> (img_id d = job_buttonId j \<and> img_buttonId d = job_buttonId j)"
proof -
  from onImageGenerated_cases[of b now j images s] show ?thesis
  proof (elim disjE exE)
    assume "onImageGenerated b now j images s = retrieval_failed j s"
    with assms show ?thesis by (simp add: retrieval_failed_def)
  next
    fix url fn sf ty
    assume "onImageGenerated b now j images s
              = image_saved now j (job_imageInfo j (settings s) url fn sf ty) s"
    with assms show ?thesis by (simp add: image_saved_records)
  qed
qed

lemma invoke_records:
  assumes "handlers st clientId = Some j"
    and "d \<in> set (list_images (store (invoke b now clientId st cb)))"
  shows "d \<in> set (list_images (store st)) \<or> (img_id d = job_buttonId j \<and> img_buttonId d = job_buttonId j)"
  using assms onImageGenerated_records[of d b now j _ "store st"]
  by (cases cb) (auto simp add: invoke_def Let_def onError_def)

lemma invoke_handlers [simp]: "handlers (invoke b now clientId st cb) = handlers st"
  by (auto simp add: invoke_def Let_def split: option.splits callback.splits)

lemma foldl_invoke_records:
  assumes "handlers st clientId = Some j"
    and "d \<in> set (list_images (store (foldl (invoke b now clientId) st cbs)))"
  shows "d \<in> set (list_images (store st)) \<or> (img_id d = job_buttonId j \<and> img_buttonId d = job_buttonId j)"
  using assms
proof (induction cbs arbitrary: st)
  case Nil
  then show ?case by simp
next
  case (Cons cb cbs)
  let ?st1 = "invoke b now clientId st cb"
  from Cons.prems(1) have h1: "handlers ?st1 clientId = Some j" by simp
  from Cons.IH[OF h1] Cons.prems(2)
  have "d \<in> set (list_images (store ?st1)) \<or> (img_id d = job_buttonId j \<and> img_buttonId d = job_buttonId j)"
    by simp
  with invoke_records[OF Cons.prems(1)] show ?case by blast
qed

lemma ws_dispatch_records:
  assumes "handlers st clientId = Some j"
    and "d \<in> set (list_images (store (ws_dispatch b now clientId ev st)))"
  shows "d \<in> set (list_images (store st)) \<or> (img_id d = job_buttonId j \<and> img_buttonId d = job_buttonId j)"
proof (cases ev)
  case OpenEvent
  with assms show ?thesis by (simp add: ws_dispatch_def)
next
  case (MessageEvent event_data)
  with assms foldl_invoke_records[OF assms(1)] show ?thesis by (simp add: ws_dispatch_def)
next
  case ErrorEvent
  with assms invoke_records[OF assms(1)] show ?thesis by (simp add: ws_dispatch_def)
next
  case CloseEvent
  with assms show ?thesis by (simp add: ws_dispatch_def)
qed

lemma failed_handlers [simp]: "handlers (failed e buttonId st) = handlers st"
  by (simp add: failed_def)

lemma add_effects_handlers [simp]: "handlers (add_effects es st) = handlers st"
  by (simp add: add_effects_def)

lemma onError_handlers [simp]:
  "handlers (st\<lparr>calls := cs, store := s\<rparr>) = handlers st"
  by simp

lemma connectWebSocket_handlers:
  assumes "connectWebSocket new_WebSocket clientId j st = Inr (ws, st1)"
  shows "handlers st1 = handlers st \<or> handlers st1 = (handlers st)(clientId \<mapsto> j)"
  using assms
  by (auto simp add: connectWebSocket_def split: option.splits)

lemma submit_workflow_handlers:
  assumes "submit_workflow new_WebSocket random_text fetch_ok j0 body st = Inr st'"
  shows "handlers st' = handlers st
       \<or> handlers st' = (handlers st)(generateClientId random_text
            \<mapsto> j0\<lparr>job_clientId := generateClientId random_text\<rparr>)"
proof -
  let ?c = "generateClientId random_text"
  let ?j = "j0\<lparr>job_clientId := ?c\<rparr>"
  from assms obtain ws st1 where
    c: "connectWebSocket new_WebSocket ?c ?j st = Inr (ws, st1)"
    by (auto simp add: submit_workflow_def Let_def split: sum.splits)
  from assms c have "handlers st' = handlers st1"
    by (auto simp add: submit_workflow_def Let_def split: option.splits if_splits)
  with connectWebSocket_handlers[OF c] show ?thesis by auto
qed

lemma generateImage_handlers:
  assumes "generateImage new_WebSocket randomSeed random_text stack fetch_ok c prompt
             buttonId st = Inr st'"
  shows "handlers st' = handlers st
       \<or> (\<exists>j. handlers st' = (handlers st)(generateClientId random_text \<mapsto> j)
              \<and> job_buttonId j = buttonId \<and> job_clientId j = generateClientId random_text)"
proof -
  from assms obtain s where s: "settings (store st) = Some s"
    by (auto simp add: generateImage_def split: option.splits)
  show ?thesis
  proof (cases "comfyui_url s = [] \<or> workflow_json s = []")
    case True
    with assms s show ?thesis by (auto simp add: generateImage_def)
  next
    case False
    show ?thesis
    proof (cases "prepare_workflow stack s (finalPrompt_of s prompt) randomSeed")
      case (Inl e)
      with assms s False show ?thesis by (auto simp add: generateImage_def Let_def)
    next
      case (Inr body)
      with assms s False obtain j0 where
        j0: "submit_workflow new_WebSocket random_text fetch_ok j0 body
               (add_effects [ButtonBusy buttonId] st) = Inr st'" "job_buttonId j0 = buttonId"
        by (auto simp add: generateImage_def Let_def)
      from submit_workflow_handlers[OF j0(1)] j0(2) show ?thesis by auto
    qed
  qed
qed

lemma job_record:
  "make_imageData now (job_imageInfo j s imageUrl filename subfolder type)
     = \<lparr> img_id = job_buttonId j,
         img_url = imageUrl,
         img_prompt = job_finalPrompt j,
         img_originalPrompt =
           (if job_prompt j \<noteq> [] then job_prompt j else job_finalPrompt j),
         img_customTags = (case s of None \<Rightarrow> [] | Some cfg \<Rightarrow> custom_tags cfg),
         img_timestamp = now,
         img_filename = filename,
         img_subfolder = subfolder,
         img_type = type,
         img_buttonId = job_buttonId j,
         img_messageIndex = job_messageIndex j,
         img_messageId = job_messageId j,
         img_buttonSelector = job_buttonSelector j \<rparr>"
  by (simp add: make_imageData_def job_imageInfo_def)

lemma image_saved_list:
  "list_images (image_saved now j i st) = take 100 (make_imageData now i # list_images st)"
  by (simp add: image_saved_def Let_def list_images_save)

lemma onImageGenerated_list:
  "list_images (onImageGenerated b now j images st) = list_images st
   \<or> (\<exists>url fn sf ty. list_images (onImageGenerated b now j images st)
         = take 100 (make_imageData now (job_imageInfo j (settings st) url fn sf ty)
                     # list_images st))"
proof -
  from onImageGenerated_cases[of b now j images st] show ?thesis
  proof (elim disjE exE)
    assume "onImageGenerated b now j images st = retrieval_failed j st"
    then show ?thesis by (simp add: retrieval_failed_def)
  next
    fix url fn sf ty
    assume "onImageGenerated b now j images st
              = image_saved now j (job_imageInfo j (settings st) url fn sf ty) st"
    then have "list_images (onImageGenerated b now j images st)
         = take 100 (make_imageData now (job_imageInfo j (settings st) url fn sf ty)
                     # list_images st)"
      by (simp add: image_saved_list)
    then show ?thesis by blast
  qed
qed

lemma invoke_list:
  assumes "handlers st clientId = Some j"
  shows "list_images (store (invoke b now clientId st cb)) = list_images (store st)
   \<or> (\<exists>url fn sf ty. list_images (store (invoke b now clientId st cb))
         = take 100 (make_imageData now (job_imageInfo j (settings (store st)) url fn sf ty)
                     # list_images (store st)))"
proof (cases cb)
  case (OnImageGenerated images)
  with assms onImageGenerated_list[of b now j images "store st"] show ?thesis
    by (simp add: invoke_def Let_def)
next
  case (OnError error)
  with assms show ?thesis by (simp add: invoke_def Let_def onError_def)
qed

lemma onmessage_at_most_one: "onmessage d = [] \<or> (\<exists>cb. onmessage d = [cb])"
  unfolding onmessage_def by (simp split: sum.splits option.splits)

lemma ws_dispatch_list:
  assumes "handlers st clientId = Some j"
  shows "list_images (store (ws_dispatch b now clientId ev st)) = list_images (store st)
   \<or> (\<exists>url fn sf ty. list_images (store (ws_dispatch b now clientId ev st))
         = take 100 (make_imageData now (job_imageInfo j (settings (store st)) url fn sf ty)
                     # list_images (store st)))"
proof (cases ev)
  case OpenEvent
  then show ?thesis by (simp add: ws_dispatch_def)
next
  case (MessageEvent event_data)
  from onmessage_at_most_one[of event_data] show ?thesis
  proof (elim disjE exE)
    assume "onmessage event_data = []"
    with MessageEvent show ?thesis by (simp add: ws_dispatch_def)
  next
    fix cb assume "onmessage event_data = [cb]"
    with MessageEvent invoke_list[OF assms, of b now cb] show ?thesis
      by (simp add: ws_dispatch_def)
  qed
next
  case ErrorEvent
  with invoke_list[OF assms, of b now "OnError WebSocketConnectionError"] show ?thesis
    by (simp add: ws_dispatch_def)
next
  case CloseEvent
  then show ?thesis by (simp add: ws_dispatch_def)
qed

lemma onImageGenerated_saves:
  assumes "js_truthy images"
    and "get_prop (Some images) (str ''length'') = Inr n" and "gt_zero b n"
    and "get_prop (Some images) (str ''0'') = Inr imageInfo"
    and "get_prop imageInfo (str ''filename'') = Inr filename"
    and "get_prop imageInfo (str ''subfolder'') = Inr subfolder"
    and "get_prop imageInfo (str ''type'') = Inr type"
    and "getGeneratedImage b (settings st) filename subfolder type = Some imageUrl"
    and "imageUrl \<noteq> []"
  shows "onImageGenerated b now j images st
           = image_saved now j (job_imageInfo j (settings st) imageUrl filename subfolder type) st"
  using assms by (simp add: onImageGenerated_def)

lemma onImageGenerated_clientId:
  "onImageGenerated b now (j\<lparr>job_clientId := x\<rparr>) images st = onImageGenerated b now j images st"
proof -
  have r: "retrieval_failed (j\<lparr>job_clientId := x\<rparr>) = retrieval_failed j"
    by (rule ext) (simp add: retrieval_failed_def)
  have i: "job_imageInfo (j\<lparr>job_clientId := x\<rparr>) = job_imageInfo j"
    by (intro ext) (simp add: job_imageInfo_def)
  have s: "image_saved now (j\<lparr>job_clientId := x\<rparr>) = image_saved now j"
    by (intro ext) (simp add: image_saved_def)
  show ?thesis unfolding onImageGenerated_def r i s ..
qed

lemma invoke_clientId:
  assumes "store s1 = store s2"
    and "handlers s1 clientId = Some (j\<lparr>job_clientId := x\<rparr>)"
    and "handlers s2 clientId = Some j"
  shows "store (invoke b now clientId s1 cb) = store (invoke b now clientId s2 cb)"
  using assms
  by (cases cb) (simp_all add: invoke_def Let_def onImageGenerated_clientId onError_def)

lemma foldl_invoke_clientId:
  assumes "store s1 = store s2"
    and "handlers s1 clientId = Some (j\<lparr>job_clientId := x\<rparr>)"
    and "handlers s2 clientId = Some j"
  shows "store (foldl (invoke b now clientId) s1 cbs) = store (foldl (invoke b now clientId) s2 cbs)"
  using assms
proof (induction cbs arbitrary: s1 s2)
  case Nil
  then show ?case by simp
next
  case (Cons cb cbs)
  have "store (invoke b now clientId s1 cb) = store (invoke b now clientId s2 cb)"
    using Cons.prems by (rule invoke_clientId)
  moreover have "handlers (invoke b now clientId s1 cb) clientId = Some (j\<lparr>job_clientId := x\<rparr>)"
    using Cons.prems(2) by simp
  moreover have "handlers (invoke b now clientId s2 cb) clientId = Some j"
    using Cons.prems(3) by simp
  ultimately show ?case using Cons.IH by simp
qed

lemma ws_dispatch_clientId:
  assumes "store s1 = store s2"
    and "handlers s1 clientId = Some (j\<lparr>job_clientId := x\<rparr>)"
    and "handlers s2 clientId = Some j"
  shows "store (ws_dispatch b now clientId ev s1) = store (ws_dispatch b now clientId ev s2)"
proof (cases ev)
  case OpenEvent
  with assms show ?thesis by (simp add: ws_dispatch_def)
next
  case (MessageEvent event_data)
  with foldl_invoke_clientId[OF assms] show ?thesis by (simp add: ws_dispatch_def)
next
  case ErrorEvent
  with invoke_clientId[OF assms] show ?thesis by (simp add: ws_dispatch_def)
next
  case CloseEvent
  with assms show ?thesis by (simp add: ws_dispatch_def)
qed

text \<open>
  C2, as the code has it. A job that \<open>generateImage\<close> starts has the button id of the
  click and the client id \<open>comfyui_generator_\<close> with a random text. An event on the
  channel of a job leaves the list of records as it is or puts one record in front of it
  (the list is cut to 100): the record has the button id of the job in \<open>id\<close> and in
  \<open>buttonId\<close>, the prompts, the place of the button and the custom tags of the job, the
  URL and the file description of the image and the clock, and no field of it is taken
  from the client id. For a message that makes the channel invoke \<open>onImageGenerated\<close>
  with images of which the first has a URL, the record is put in front. The store after
  an event is the same for a job with any other client id.
\<close>

theorem record_id_is_button_id:
  "(generateImage new_WebSocket randomSeed random_text stack fetch_ok c prompt buttonId st
      = Inr st' \<and> handlers st' clientId = Some j \<and> handlers st clientId \<noteq> Some j
    \<longrightarrow> job_buttonId j = buttonId \<and> job_clientId j = clientId
        \<and> clientId = str ''comfyui_generator_'' @ random_text)
   \<and> (handlers st2 clientId = Some j
    \<longrightarrow> (\<forall>d \<in> set (list_images (store (ws_dispatch b now2 clientId ev st2))).
           d \<in> set (list_images (store st2))
           \<or> (img_id d = job_buttonId j \<and> img_buttonId d = job_buttonId j)))
   \<and> (handlers st2 clientId = Some j
    \<longrightarrow> list_images (store (ws_dispatch b now2 clientId ev st2)) = list_images (store st2)
        \<or> (\<exists>imageUrl filename subfolder type.
             list_images (store (ws_dispatch b now2 clientId ev st2))
               = take 100
                   (\<lparr> img_id = job_buttonId j,
                     img_url = imageUrl,
                     img_prompt = job_finalPrompt j,
                     img_originalPrompt =
                       (if job_prompt j \<noteq> [] then job_prompt j else job_finalPrompt j),
                     img_customTags =
                       (case settings (store st2) of None \<Rightarrow> [] | Some cfg \<Rightarrow> custom_tags cfg),
                     img_timestamp = now2,
                     img_filename = filename,
                     img_subfolder = subfolder,
                     img_type = type,
                     img_buttonId = job_buttonId j,
                     img_messageIndex = job_messageIndex j,
                     img_messageId = job_messageId j,
                     img_buttonSelector = job_buttonSelector j \<rparr>
                    # list_images (store st2))))
   \<and> (handlers st2 clientId = Some j
      \<and> onmessage event_data = [OnImageGenerated images]
      \<and> js_truthy images
      \<and> get_prop (Some images) (str ''length'') = Inr n \<and> gt_zero b n
      \<and> get_prop (Some images) (str ''0'') = Inr imageInfo
      \<and> get_prop imageInfo (str ''filename'') = Inr filename
      \<and> get_prop imageInfo (str ''subfolder'') = Inr subfolder
      \<and> get_prop imageInfo (str ''type'') = Inr type
      \<and> getGeneratedImage b (settings (store st2)) filename subfolder type = Some imageUrl
      \<and> imageUrl \<noteq> []
    \<longrightarrow> list_images (store (ws_dispatch b now2 clientId (MessageEvent event_data) st2))
          = take 100
              (\<lparr> img_id = job_buttonId j,
                     img_url = imageUrl,
                     img_prompt = job_finalPrompt j,
                     img_originalPrompt =
                       (if job_prompt j \<noteq> [] then job_prompt j else job_finalPrompt j),
                     img_customTags =
                       (case settings (store st2) of None \<Rightarrow> [] | Some cfg \<Rightarrow> custom_tags cfg),
                     img_timestamp = now2,
                     img_filename = filename,
                     img_subfolder = subfolder,
                     img_type = type,
                     img_buttonId = job_buttonId j,
                     img_messageIndex = job_messageIndex j,
                     img_messageId = job_messageId j,
                     img_buttonSelector = job_buttonSelector j \<rparr>
               # list_images (store st2)))
   \<and> store (ws_dispatch b now2 clientId ev
               (st2\<lparr>handlers := (handlers st2)(clientId \<mapsto> j\<lparr>job_clientId := x\<rparr>)\<rparr>))
       = store (ws_dispatch b now2 clientId ev
                  (st2\<lparr>handlers := (handlers st2)(clientId \<mapsto> j)\<rparr>))"
proof (intro conjI impI ballI)
  assume a: "generateImage new_WebSocket randomSeed random_text stack fetch_ok c prompt
               buttonId st = Inr st' \<and> handlers st' clientId = Some j
             \<and> handlers st clientId \<noteq> Some j"
  then have g: "generateImage new_WebSocket randomSeed random_text stack fetch_ok c prompt
               buttonId st = Inr st'" by simp
  from generateImage_handlers[OF g] a
  have "job_buttonId j = buttonId \<and> job_clientId j = clientId
        \<and> clientId = generateClientId random_text"
    by (auto split: if_splits)
  then show "job_buttonId j = buttonId" "job_clientId j = clientId"
    "clientId = str ''comfyui_generator_'' @ random_text"
    by (simp_all add: generateClientId_def)
next
  fix d
  assume "handlers st2 clientId = Some j"
    and "d \<in> set (list_images (store (ws_dispatch b now2 clientId ev st2)))"
  then show "d \<in> set (list_images (store st2))
           \<or> (img_id d = job_buttonId j \<and> img_buttonId d = job_buttonId j)"
    by (rule ws_dispatch_records)
next
  assume "handlers st2 clientId = Some j"
  from ws_dispatch_list[OF this, of b now2 ev]
  show "list_images (store (ws_dispatch b now2 clientId ev st2)) = list_images (store st2)
        \<or> (\<exists>imageUrl filename subfolder type.
             list_images (store (ws_dispatch b now2 clientId ev st2))
               = take 100
                   (\<lparr> img_id = job_buttonId j,
                     img_url = imageUrl,
                     img_prompt = job_finalPrompt j,
                     img_originalPrompt =
                       (if job_prompt j \<noteq> [] then job_prompt j else job_finalPrompt j),
                     img_customTags =
                       (case settings (store st2) of None \<Rightarrow> [] | Some cfg \<Rightarrow> custom_tags cfg),
                     img_timestamp = now2,
                     img_filename = filename,
                     img_subfolder = subfolder,
                     img_type = type,
                     img_buttonId = job_buttonId j,
                     img_messageIndex = job_messageIndex j,
                     img_messageId = job_messageId j,
                     img_buttonSelector = job_buttonSelector j \<rparr>
                    # list_images (store st2)))"
    unfolding job_record .
next
  assume a: "handlers st2 clientId = Some j
      \<and> onmessage event_data = [OnImageGenerated images]
      \<and> js_truthy images
      \<and> get_prop (Some images) (str ''length'') = Inr n \<and> gt_zero b n
      \<and> get_prop (Some images) (str ''0'') = Inr imageInfo
      \<and> get_prop imageInfo (str ''filename'') = Inr filename
      \<and> get_prop imageInfo (str ''subfolder'') = Inr subfolder
      \<and> get_prop imageInfo (str ''type'') = Inr type
      \<and> getGeneratedImage b (settings (store st2)) filename subfolder type = Some imageUrl
      \<and> imageUrl \<noteq> []"
  then have "onImageGenerated b now2 j images (store st2)
           = image_saved now2 j
               (job_imageInfo j (settings (store st2)) imageUrl filename subfolder type) (store st2)"
    by (simp add: onImageGenerated_def)
  with a have "list_images (store (ws_dispatch b now2 clientId (MessageEvent event_data) st2))
      = take 100 (make_imageData now2
                    (job_imageInfo j (settings (store st2)) imageUrl filename subfolder type)
                  # list_images (store st2))"
    by (simp add: ws_dispatch_def invoke_def Let_def image_saved_list)
  then show "list_images (store (ws_dispatch b now2 clientId (MessageEvent event_data) st2))
          = take 100
              (\<lparr> img_id = job_buttonId j,
                     img_url = imageUrl,
                     img_prompt = job_finalPrompt j,
                     img_originalPrompt =
                       (if job_prompt j \<noteq> [] then job_prompt j else job_finalPrompt j),
                     img_customTags =
                       (case settings (store st2) of None \<Rightarrow> [] | Some cfg \<Rightarrow> custom_tags cfg),
                     img_timestamp = now2,
                     img_filename = filename,
                     img_subfolder = subfolder,
                     img_type = type,
                     img_buttonId = job_buttonId j,
                     img_messageIndex = job_messageIndex j,
                     img_messageId = job_messageId j,
                     img_buttonSelector = job_buttonSelector j \<rparr>
               # list_images (store st2))"
    unfolding job_record .
next
  show "store (ws_dispatch b now2 clientId ev
               (st2\<lparr>handlers := (handlers st2)(clientId \<mapsto> j\<lparr>job_clientId := x\<rparr>)\<rparr>))
       = store (ws_dispatch b now2 clientId ev
                  (st2\<lparr>handlers := (handlers st2)(clientId \<mapsto> j)\<rparr>))"
    by (rule ws_dispatch_clientId) simp_all
qed

lemma after_click_returns: "case after_click of Inl e \<Rightarrow> False | Inr st \<Rightarrow> True"
  unfolding after_click_def by code_simp

lemma after_click_clicked: "after_click = Inr clicked_app"
proof -
  define r where "r = after_click"
  have "case r of Inl e \<Rightarrow> False | Inr st \<Rightarrow> True"
    using after_click_returns by (simp add: r_def)
  then have "r = Inr (case r of Inl e \<Rightarrow> idle_app | Inr st \<Rightarrow> st)"
    by (cases r) simp_all
  then show ?thesis unfolding r_def clicked_app_def .
qed

lemma clicked_handlers:
  "(case after_click of Inl e \<Rightarrow> None | Inr st \<Rightarrow> handlers st (job_clientId sample_job))
     = Some sample_job"
  unfolding after_click_def sample_job_def by code_simp

lemma configured_handlers: "handlers configured_app (job_clientId sample_job) = None"
  by (simp add: configured_app_def idle_app_def)

lemma clicked_store_empty:
  "(case after_click of Inl e \<Rightarrow> [] | Inr st \<Rightarrow> list_images (store st)) = []"
  unfolding after_click_def by code_simp

lemma clicked_settings:
  "(case after_click of Inl e \<Rightarrow> None | Inr st \<Rightarrow> settings (store st))
     = settings (store configured_app)"
  unfolding after_click_def by code_simp

lemma executed_invokes: "onmessage executed_message = [OnImageGenerated executed_images]"
  unfolding executed_message_def executed_images_def by code_simp

lemma executed_first:
  "get_prop (Some executed_images) (str ''0'')
     = Inr (Some (JObj [(str ''filename'', JStr (str ''a.png'')), (str ''subfolder'', JStr []),
                        (str ''type'', JStr (str ''output''))]))"
  unfolding executed_images_def by code_simp

lemma executed_url:
  "getGeneratedImage sample_builtins (settings (store configured_app))
     (Some (JStr (str ''a.png''))) (Some (JStr [])) (Some (JStr (str ''output'')))
     = Some (str ''http://127.0.0.1:8188/view?filename=a.png&type=output'')"
  by (simp add: getGeneratedImage_def configured_app_def idle_app_def empty_store_def
      DEFAULT_SETTINGS_def sample_builtins_def truthy_def js_truthy_def str_def)

theorem record_id_is_button_id_witness:
  "job_buttonId sample_job = str ''comfyui-btn-1700000000000-k3j9x2m1q''
   \<and> job_clientId sample_job = str ''comfyui_generator_'' @ str ''8f3k2j1m9xq''
   \<and> img_id ` set (list_images (store (ws_dispatch sample_builtins 1700000012345
                  (job_clientId sample_job) (MessageEvent executed_message) clicked_app)))
       \<subseteq> {job_buttonId sample_job}
   \<and> list_images (store (ws_dispatch sample_builtins 1700000012345
                  (job_clientId sample_job) (MessageEvent executed_message) clicked_app))
       = [\<lparr> img_id = str ''comfyui-btn-1700000000000-k3j9x2m1q'',
          img_url = str ''http://127.0.0.1:8188/view?filename=a.png&type=output'',
          img_prompt = str ''masterpiece, best quality, a cat'',
          img_originalPrompt = str ''a cat'',
          img_customTags = str ''masterpiece, best quality'',
          img_timestamp = 1700000012345,
          img_filename = Some (JStr (str ''a.png'')),
          img_subfolder = Some (JStr []),
          img_type = Some (JStr (str ''output'')),
          img_buttonId = str ''comfyui-btn-1700000000000-k3j9x2m1q'',
          img_messageIndex = 4,
          img_messageId = str ''4'',
          img_buttonSelector = str ''#comfyui-btn-1700000000000-k3j9x2m1q'' \<rparr>]
   \<and> store (ws_dispatch sample_builtins 1700000012345 (job_clientId sample_job)
              (MessageEvent executed_message)
              (clicked_app\<lparr>handlers := (handlers clicked_app)(job_clientId sample_job
                 \<mapsto> sample_job\<lparr>job_clientId := str ''comfyui_generator_another''\<rparr>)\<rparr>))
       = store (ws_dispatch sample_builtins 1700000012345 (job_clientId sample_job)
                  (MessageEvent executed_message)
                  (clicked_app\<lparr>handlers := (handlers clicked_app)(job_clientId sample_job
                     \<mapsto> sample_job)\<rparr>))"
proof -
  have g: "generateImage always_socket 305419896 (str ''8f3k2j1m9xq'') 100 True
             sample_click (str ''a cat'') (str ''comfyui-btn-1700000000000-k3j9x2m1q'')
             configured_app = Inr clicked_app"
    using after_click_clicked by (simp add: after_click_def)
  have h: "handlers clicked_app (job_clientId sample_job) = Some sample_job"
    using clicked_handlers by (simp add: after_click_clicked)
  have n: "handlers configured_app (job_clientId sample_job) \<noteq> Some sample_job"
    by (simp add: configured_handlers)
  have e: "list_images (store clicked_app) = []"
    using clicked_store_empty by (simp add: after_click_clicked)
  have s: "settings (store clicked_app) = settings (store configured_app)"
    using clicked_settings by (simp add: after_click_clicked)
  have t: "js_truthy executed_images" by (simp add: executed_images_def js_truthy_def)
  have l: "get_prop (Some executed_images) (str ''length'') = Inr (Some (JNum 1 0))"
    by (simp add: executed_images_def get_prop_def)
  have z: "gt_zero sample_builtins (Some (JNum 1 0))" by (simp add: sample_builtins_def)
  have p: "get_prop (Some (JObj [(str ''filename'', JStr (str ''a.png'')),
                        (str ''subfolder'', JStr []), (str ''type'', JStr (str ''output''))]))
             (str ''filename'') = Inr (Some (JStr (str ''a.png'')))"
          "get_prop (Some (JObj [(str ''filename'', JStr (str ''a.png'')),
                        (str ''subfolder'', JStr []), (str ''type'', JStr (str ''output''))]))
             (str ''subfolder'') = Inr (Some (JStr []))"
          "get_prop (Some (JObj [(str ''filename'', JStr (str ''a.png'')),
                        (str ''subfolder'', JStr []), (str ''type'', JStr (str ''output''))]))
             (str ''type'') = Inr (Some (JStr (str ''output'')))"
    by (simp_all add: get_prop_def str_def)
  have u: "getGeneratedImage sample_builtins (settings (store clicked_app))
     (Some (JStr (str ''a.png''))) (Some (JStr [])) (Some (JStr (str ''output'')))
     = Some (str ''http://127.0.0.1:8188/view?filename=a.png&type=output'')"
    using executed_url by (simp add: s)
  have v: "str ''http://127.0.0.1:8188/view?filename=a.png&type=output'' \<noteq> []"
    by (simp add: str_def)
  have tags: "(case settings (store clicked_app) of None \<Rightarrow> [] | Some cfg \<Rightarrow> custom_tags cfg)
                = str ''masterpiece, best quality''"
    by (simp add: s configured_app_def idle_app_def empty_store_def)
  note th = record_id_is_button_id[of always_socket 305419896
      "str ''8f3k2j1m9xq''" 100 True sample_click "str ''a cat''"
      "str ''comfyui-btn-1700000000000-k3j9x2m1q''" configured_app clicked_app
      "job_clientId sample_job" sample_job clicked_app sample_builtins 1700000012345
      "MessageEvent executed_message" executed_message executed_images "Some (JNum 1 0)"
      "Some (JObj [(str ''filename'', JStr (str ''a.png'')), (str ''subfolder'', JStr []),
                   (str ''type'', JStr (str ''output''))])"
      "Some (JStr (str ''a.png''))" "Some (JStr [])" "Some (JStr (str ''output''))"
      "str ''http://127.0.0.1:8188/view?filename=a.png&type=output''"
      "str ''comfyui_generator_another''"]
  from th g h n
  have a: "job_buttonId sample_job = str ''comfyui-btn-1700000000000-k3j9x2m1q''
      \<and> job_clientId sample_job = str ''comfyui_generator_'' @ str ''8f3k2j1m9xq''"
    by blast
  from th h
  have b: "\<forall>d \<in> set (list_images (store (ws_dispatch sample_builtins 1700000012345
                  (job_clientId sample_job) (MessageEvent executed_message) clicked_app))).
         d \<in> set (list_images (store clicked_app))
         \<or> (img_id d = job_buttonId sample_job \<and> img_buttonId d = job_buttonId sample_job)"
    by blast
  from b e have b': "img_id ` set (list_images (store (ws_dispatch sample_builtins 1700000012345
                  (job_clientId sample_job) (MessageEvent executed_message) clicked_app)))
       \<subseteq> {job_buttonId sample_job}" by auto
  from th[THEN conjunct2, THEN conjunct2, THEN conjunct2, THEN conjunct1]
    h executed_invokes t l z executed_first p u v
  have "list_images (store (ws_dispatch sample_builtins 1700000012345
                  (job_clientId sample_job) (MessageEvent executed_message) clicked_app))
       = take 100
           (\<lparr> img_id = job_buttonId sample_job,
              img_url = str ''http://127.0.0.1:8188/view?filename=a.png&type=output'',
              img_prompt = job_finalPrompt sample_job,
              img_originalPrompt =
                (if job_prompt sample_job \<noteq> [] then job_prompt sample_job
                 else job_finalPrompt sample_job),
              img_customTags =
                (case settings (store clicked_app) of None \<Rightarrow> [] | Some cfg \<Rightarrow> custom_tags cfg),
              img_timestamp = 1700000012345,
              img_filename = Some (JStr (str ''a.png'')),
              img_subfolder = Some (JStr []),
              img_type = Some (JStr (str ''output'')),
              img_buttonId = job_buttonId sample_job,
              img_messageIndex = job_messageIndex sample_job,
              img_messageId = job_messageId sample_job,
              img_buttonSelector = job_buttonSelector sample_job \<rparr>
            # list_images (store clicked_app))"
    by blast
  then have r: "list_images (store (ws_dispatch sample_builtins 1700000012345
                  (job_clientId sample_job) (MessageEvent executed_message) clicked_app))
       = [\<lparr> img_id = str ''comfyui-btn-1700000000000-k3j9x2m1q'',
          img_url = str ''http://127.0.0.1:8188/view?filename=a.png&type=output'',
          img_prompt = str ''masterpiece, best quality, a cat'',
          img_originalPrompt = str ''a cat'',
          img_customTags = str ''masterpiece, best quality'',
          img_timestamp = 1700000012345,
          img_filename = Some (JStr (str ''a.png'')),
          img_subfolder = Some (JStr []),
          img_type = Some (JStr (str ''output'')),
          img_buttonId = str ''comfyui-btn-1700000000000-k3j9x2m1q'',
          img_messageIndex = 4,
          img_messageId = str ''4'',
          img_buttonSelector = str ''#comfyui-btn-1700000000000-k3j9x2m1q'' \<rparr>]"
    unfolding tags e by (simp add: sample_job_def str_def)
  from a b' r th[THEN conjunct2, THEN conjunct2, THEN conjunct2, THEN conjunct2]
  show ?thesis by blast
qed

lemma after_click_posts:
  "posted after_click = [PostPrompt submitted_workflow (str ''comfyui_generator_8f3k2j1m9xq'')]"
  unfolding posted_def after_click_def submitted_workflow_def by code_simp

text \<open>
  C2 as stated fails: the job is submitted with the client id
  \<open>comfyui_generator_8f3k2j1m9xq\<close>, and the record it persists has the id of the button.
\<close>

theorem record_id_counterexample:
  "posted_client_ids after_click = [str ''comfyui_generator_8f3k2j1m9xq'']
   \<and> stored_ids after_message = [str ''comfyui-btn-1700000000000-k3j9x2m1q'']
   \<and> str ''comfyui-btn-1700000000000-k3j9x2m1q'' \<noteq> str ''comfyui_generator_8f3k2j1m9xq''"
  unfolding posted_client_ids_def posted_def stored_ids_def after_message_def after_click_def
  by code_simp

end
